theory Spec2Isabelle
  imports
    Complex_Main
    "HOL-Library.Char_ord"
    "HOL-Library.List_Lexorder"
    "HOL-Library.Option_ord"
    "HOL-Library.Product_Lexorder"
    "HOL-Library.Log_Nat"
begin

section \<open>Python values the scripts rely on\<close>

text \<open>
  Every function of the repository wraps its body in \<^verbatim>\<open>try: ... except Exception\<close>.
  The exceptions that can be raised inside such a body are values of \<open>error\<close>; a
  computation that may raise has a result of type \<open>error + 'a\<close>, with \<open>Inl\<close> the
  raised exception.
\<close>

datatype error =
    TypeError
  | ValueError
  | ZeroDivisionError
  | OverflowError
  | DatabaseError
  | KeyError
  | RequestException
  | JSONDecodeError

subsection \<open>Calendar dates (\<^verbatim>\<open>datetime\<close>)\<close>

text \<open>
  Only the date part of a \<^verbatim>\<open>datetime\<close> is observed by the scripts:
  \<^verbatim>\<open>strptime(s, '%Y-%m-%d')\<close> yields midnight, \<^verbatim>\<open>.days\<close> of a difference of two
  midnights is the difference of the ordinals, and \<^verbatim>\<open>strftime('%Y-%m-%d')\<close> drops the
  time of day of \<^verbatim>\<open>datetime.now()\<close>.
\<close>

record datetime =
  year :: int
  month :: int
  day :: int

definition is_leap :: "int \<Rightarrow> bool" where
  "is_leap y \<longleftrightarrow> y mod 4 = 0 \<and> (y mod 100 \<noteq> 0 \<or> y mod 400 = 0)"

definition days_in_month :: "int \<Rightarrow> int \<Rightarrow> int" where
  "days_in_month y m =
     (if m = 2 then (if is_leap y then 29 else 28)
      else if m = 4 \<or> m = 6 \<or> m = 9 \<or> m = 11 then 30
      else 31)"

definition days_before_year :: "int \<Rightarrow> int" where
  "days_before_year y =
     (let z = y - 1 in z * 365 + z div 4 - z div 100 + z div 400)"

text \<open>\<^verbatim>\<open>_DAYS_BEFORE_MONTH[month] + (month > 2 and leap)\<close>.\<close>

definition days_before_month_in :: "bool \<Rightarrow> int \<Rightarrow> int" where
  "days_before_month_in leap m =
     (if m = 1 then 0 else if m = 2 then 31
      else (if leap then 1 else 0) +
        (if m = 3 then 59 else if m = 4 then 90 else if m = 5 then 120
         else if m = 6 then 151 else if m = 7 then 181 else if m = 8 then 212
         else if m = 9 then 243 else if m = 10 then 273 else if m = 11 then 304
         else 334))"

definition days_before_month :: "int \<Rightarrow> int \<Rightarrow> int" where
  "days_before_month y m = days_before_month_in (is_leap y) m"

text \<open>The proleptic Gregorian ordinal: 0001-01-01 is day 1.\<close>

definition ymd2ord :: "datetime \<Rightarrow> int" where
  "ymd2ord dt = days_before_year (year dt) + days_before_month (year dt) (month dt) + day dt"

text \<open>The constructor check of \<^verbatim>\<open>datetime(year, month, day)\<close>.\<close>

definition valid_datetime :: "datetime \<Rightarrow> bool" where
  "valid_datetime dt \<longleftrightarrow>
     1 \<le> year dt \<and> year dt \<le> 9999 \<and> 1 \<le> month dt \<and> month dt \<le> 12 \<and>
     1 \<le> day dt \<and> day dt \<le> days_in_month (year dt) (month dt)"

definition mk_datetime :: "int \<Rightarrow> int \<Rightarrow> int \<Rightarrow> error + datetime" where
  "mk_datetime y m d =
     (let dt = \<lparr>year = y, month = m, day = d\<rparr>
      in if valid_datetime dt then Inr dt else Inl ValueError)"

text \<open>The inverse of \<open>ymd2ord\<close>, as \<^verbatim>\<open>datetime\<close> computes it (400-, 100-, 4- and 1-year cycles).\<close>

definition ord2ymd :: "int \<Rightarrow> datetime" where
  "ord2ymd n0 =
     (let n = n0 - 1;
          n400 = n div 146097; n = n mod 146097;
          n100 = n div 36524; n = n mod 36524;
          n4 = n div 1461; n = n mod 1461;
          n1 = n div 365; n = n mod 365;
          y = n400 * 400 + 1 + n100 * 100 + n4 * 4 + n1
      in if n1 = 4 \<or> n100 = 4 then \<lparr>year = y - 1, month = 12, day = 31\<rparr>
         else
           let leapyear = (n1 = 3 \<and> (n4 \<noteq> 24 \<or> n100 = 3));
               m = (n + 50) div 32;
               preceding = days_before_month_in leapyear m;
               m' = (if preceding > n then m - 1 else m);
               preceding' = days_before_month_in leapyear m'
           in \<lparr>year = y, month = m', day = n - preceding' + 1\<rparr>)"

subsection \<open>Parsing and printing dates\<close>

definition is_digit :: "char \<Rightarrow> bool" where
  "is_digit c \<longleftrightarrow> CHR ''0'' \<le> c \<and> c \<le> CHR ''9''"

definition digit_val :: "char \<Rightarrow> int" where
  "digit_val c = int (of_char c) - 48"

text \<open>
  The month directive \<^verbatim>\<open>%m\<close> is the regular expression \<^verbatim>\<open>1[0-2]|0[1-9]|[1-9]\<close> and must
  be followed by the literal \<^verbatim>\<open>-\<close>; the result is the month and the rest of the text.
\<close>

fun split_month :: "string \<Rightarrow> (int \<times> string) option" where
  "split_month (a # b # c # ds) =
     (if c = CHR ''-'' \<and> a = CHR ''1'' \<and> CHR ''0'' \<le> b \<and> b \<le> CHR ''2''
        then Some (10 + digit_val b, ds)
      else if c = CHR ''-'' \<and> a = CHR ''0'' \<and> CHR ''1'' \<le> b \<and> b \<le> CHR ''9''
        then Some (digit_val b, ds)
      else if b = CHR ''-'' \<and> CHR ''1'' \<le> a \<and> a \<le> CHR ''9''
        then Some (digit_val a, c # ds)
      else None)"
| "split_month _ = None"

text \<open>
  The day directive \<^verbatim>\<open>%d\<close> is \<^verbatim>\<open>3[01]|[12]\d|0[1-9]|[1-9]| [1-9]\<close>; text left over
  after it is an error (\<^verbatim>\<open>unconverted data remains\<close>).
\<close>

fun parse_day :: "string \<Rightarrow> int option" where
  "parse_day [a] = (if CHR ''1'' \<le> a \<and> a \<le> CHR ''9'' then Some (digit_val a) else None)"
| "parse_day [a, b] =
     (if a = CHR ''3'' \<and> (b = CHR ''0'' \<or> b = CHR ''1'') then Some (30 + digit_val b)
      else if (a = CHR ''1'' \<or> a = CHR ''2'') \<and> is_digit b
        then Some (10 * digit_val a + digit_val b)
      else if (a = CHR ''0'' \<or> a = CHR '' '') \<and> CHR ''1'' \<le> b \<and> b \<le> CHR ''9''
        then Some (digit_val b)
      else None)"
| "parse_day _ = None"

text \<open>
  \<^verbatim>\<open>datetime.strptime(s, '%Y-%m-%d')\<close> on a string: four digits, \<^verbatim>\<open>-\<close>, month, \<^verbatim>\<open>-\<close>,
  day, then the constructor check. Every failure is a \<^verbatim>\<open>ValueError\<close>. (HOL characters
  are bytes, so the digits are the ASCII ones.)
\<close>

fun strptime_str :: "string \<Rightarrow> error + datetime" where
  "strptime_str (y1 # y2 # y3 # y4 # s # rest) =
     (if is_digit y1 \<and> is_digit y2 \<and> is_digit y3 \<and> is_digit y4 \<and> s = CHR ''-'' then
        (case split_month rest of
           None \<Rightarrow> Inl ValueError
         | Some (m, ds) \<Rightarrow>
             (case parse_day ds of
                None \<Rightarrow> Inl ValueError
              | Some d \<Rightarrow>
                  mk_datetime
                    (1000 * digit_val y1 + 100 * digit_val y2 + 10 * digit_val y3 + digit_val y4)
                    m d))
      else Inl ValueError)"
| "strptime_str _ = Inl ValueError"

text \<open>The argument comes from a database column and may be \<^verbatim>\<open>None\<close>: a \<^verbatim>\<open>TypeError\<close>.\<close>

definition strptime :: "string option \<Rightarrow> error + datetime" where
  "strptime v = (case v of None \<Rightarrow> Inl TypeError | Some s \<Rightarrow> strptime_str s)"

definition digit_char :: "int \<Rightarrow> char" where
  "digit_char n = ''0123456789'' ! nat (n mod 10)"

definition pad2 :: "int \<Rightarrow> string" where
  "pad2 n = [digit_char (n div 10), digit_char n]"

definition pad4 :: "int \<Rightarrow> string" where
  "pad4 n = [digit_char (n div 1000), digit_char (n div 100), digit_char (n div 10), digit_char n]"

text \<open>
  \<^verbatim>\<open>strftime('%Y-%m-%d')\<close>, with the year written on four digits (the C library decides
  the padding of years below 1000; no property below depends on it).
\<close>

definition strftime :: "datetime \<Rightarrow> string" where
  "strftime dt = pad4 (year dt) @ ''-'' @ pad2 (month dt) @ ''-'' @ pad2 (day dt)"

text \<open>\<^verbatim>\<open>dt - timedelta(days=n)\<close>: an \<^verbatim>\<open>OverflowError\<close> outside years 1 to 9999.\<close>

definition minus_days :: "datetime \<Rightarrow> int \<Rightarrow> error + datetime" where
  "minus_days dt n =
     (let k = ymd2ord dt - n
      in if 1 \<le> k \<and> k \<le> 3652059 then Inr (ord2ymd k) else Inl OverflowError)"

subsection \<open>Floating-point arithmetic\<close>

text \<open>
  A Python \<^verbatim>\<open>float\<close> is an IEEE 754 double. A finite double is a rational number, and
  each arithmetic operation returns the exact result rounded to the nearest double, ties
  to the even significand. \<open>float_exponent x\<close> is the exponent \<open>e\<close> with
  \<open>2 ^ e \<le> x < 2 ^ (e + 1)\<close>; a double in that binade is a multiple of \<open>2 ^ (e - 52)\<close>.
  Overflow and subnormal numbers are outside the model: the magnitudes that occur in the
  scripts lie between \<open>1 / 365\<close> and \<open>2 ^ 31\<close>.
\<close>

definition float_exponent :: "rat \<Rightarrow> int" where
  "float_exponent x =
     (let e = bitlen (fst (quotient_of x)) - bitlen (snd (quotient_of x))
      in if 2 powi e \<le> x then e else e - 1)"

definition round_half_even :: "rat \<Rightarrow> int" where
  "round_half_even x =
     (let f = \<lfloor>x\<rfloor>; r = x - of_int f
      in if r < 1 / 2 then f
         else if 1 / 2 < r then f + 1
         else if even f then f else f + 1)"

definition round_double :: "rat \<Rightarrow> rat" where
  "round_double x =
     (if x = 0 then 0
      else let u = 2 powi (float_exponent \<bar>x\<bar> - 52)
           in of_int (round_half_even (x / u)) * u)"

text \<open>The correctly rounded quotient, for a divisor that is not zero.\<close>

definition float_div :: "rat \<Rightarrow> rat \<Rightarrow> rat" where
  "float_div a b = round_double (a / b)"

text \<open>\<^verbatim>\<open>a / b\<close> (true division of two numbers): a zero divisor raises.\<close>

definition truediv :: "rat \<Rightarrow> rat \<Rightarrow> error + rat" where
  "truediv a b = (if b = 0 then Inl ZeroDivisionError else Inr (float_div a b))"

definition float_mul :: "rat \<Rightarrow> rat \<Rightarrow> rat" where
  "float_mul a b = round_double (a * b)"

text \<open>\<^verbatim>\<open>int(x)\<close> on a finite float truncates towards zero.\<close>

definition py_int :: "rat \<Rightarrow> int" where
  "py_int x = (if 0 \<le> x then \<lfloor>x\<rfloor> else \<lceil>x\<rceil>)"

section \<open>The price table\<close>

text \<open>
  A row of the table \<^verbatim>\<open>ohlcv\<close>. Every column is nullable (\<open>None\<close> is \<^verbatim>\<open>NULL\<close>); dates
  are stored as text.
\<close>

record ohlcv =
  ticker :: "string option"
  date :: "string option"
  open_price :: "rat option"
  high :: "rat option"
  low :: "rat option"
  close_price :: "rat option"
  volume :: "int option"

text \<open>
  \<^verbatim>\<open>get_db_connection(DB_PATH)\<close> and the queries on the connection either raise or see
  the rows of the table.
\<close>

type_synonym store = "error + ohlcv list"

subsection \<open>The SQL the scripts issue\<close>

text \<open>A comparison with \<^verbatim>\<open>NULL\<close> on either side is not true.\<close>

definition sql_eq :: "'a option \<Rightarrow> 'a option \<Rightarrow> bool" where
  "sql_eq a b = (case a of None \<Rightarrow> False | Some x \<Rightarrow> (case b of None \<Rightarrow> False | Some y \<Rightarrow> x = y))"

definition sql_ge :: "'a::linorder option \<Rightarrow> 'a option \<Rightarrow> bool" where
  "sql_ge a b = (case a of None \<Rightarrow> False | Some x \<Rightarrow> (case b of None \<Rightarrow> False | Some y \<Rightarrow> y \<le> x))"

text \<open>\<^verbatim>\<open>FROM ohlcv WHERE ticker = ?\<close>\<close>

definition where_ticker :: "ohlcv list \<Rightarrow> string option \<Rightarrow> ohlcv list" where
  "where_ticker db t = filter (\<lambda>r. sql_eq (ticker r) t) db"

text \<open>\<^verbatim>\<open>FROM ohlcv WHERE ticker = ? AND date >= ?\<close>\<close>

definition where_ticker_since :: "ohlcv list \<Rightarrow> string option \<Rightarrow> string option \<Rightarrow> ohlcv list" where
  "where_ticker_since db t d = filter (\<lambda>r. sql_eq (ticker r) t \<and> sql_ge (date r) d) db"

definition sql_count :: "'a list \<Rightarrow> int" where
  "sql_count rows = int (length rows)"

text \<open>Aggregates skip \<^verbatim>\<open>NULL\<close> and are \<^verbatim>\<open>NULL\<close> when nothing is left.\<close>

definition non_null :: "'a option list \<Rightarrow> 'a list" where
  "non_null vs = concat (map (\<lambda>v. case v of None \<Rightarrow> [] | Some x \<Rightarrow> [x]) vs)"

definition sql_min :: "'a::linorder option list \<Rightarrow> 'a option" where
  "sql_min vs = (case non_null vs of [] \<Rightarrow> None | x # xs \<Rightarrow> Some (fold min xs x))"

definition sql_max :: "'a::linorder option list \<Rightarrow> 'a option" where
  "sql_max vs = (case non_null vs of [] \<Rightarrow> None | x # xs \<Rightarrow> Some (fold max xs x))"

text \<open>
  \<^verbatim>\<open>AVG\<close>; SQLite accumulates in floating point, and the scripts only print the value,
  so the exact mean stands for it.
\<close>

definition sql_avg :: "rat option list \<Rightarrow> rat option" where
  "sql_avg vs = (case non_null vs of [] \<Rightarrow> None | x # xs \<Rightarrow> Some (sum_list (x # xs) / of_nat (length (x # xs))))"

text \<open>
  \<^verbatim>\<open>SELECT date ... ORDER BY date ASC LIMIT 1\<close> followed by \<^verbatim>\<open>fetchone()\<close>: no row
  (\<open>None\<close>) on an empty selection, else the least date, where \<^verbatim>\<open>NULL\<close> sorts before every
  text. \<^verbatim>\<open>DESC\<close> gives the greatest.
\<close>

definition order_by_date_asc_limit_1 :: "ohlcv list \<Rightarrow> string option option" where
  "order_by_date_asc_limit_1 rows = (case map date rows of [] \<Rightarrow> None | v # vs \<Rightarrow> Some (fold min vs v))"

definition order_by_date_desc_limit_1 :: "ohlcv list \<Rightarrow> string option option" where
  "order_by_date_desc_limit_1 rows = (case map date rows of [] \<Rightarrow> None | v # vs \<Rightarrow> Some (fold max vs v))"

text \<open>\<^verbatim>\<open>SELECT DISTINCT ticker FROM ohlcv ORDER BY ticker\<close>\<close>

definition distinct_tickers :: "ohlcv list \<Rightarrow> string option list" where
  "distinct_tickers db = sort (remdups (map ticker db))"

section \<open>Coverage statistics (\<^verbatim>\<open>db_stats.py\<close>, \<^verbatim>\<open>analyze_db.py\<close>)\<close>

text \<open>
  An f-string with a float format (\<^verbatim>\<open>f"{v:.2f}"\<close>) raises \<^verbatim>\<open>TypeError\<close> on \<^verbatim>\<open>None\<close>; the
  text it produces is not modelled.
\<close>

definition format_float :: "rat option \<Rightarrow> error + unit" where
  "format_float v = (case v of None \<Rightarrow> Inl TypeError | Some x \<Rightarrow> Inr ())"

text \<open>
  The entry that the loop of \<^verbatim>\<open>get_database_statistics\<close> appends to \<^verbatim>\<open>ticker_stats\<close> for
  one ticker, under the names of the local variables; \<open>years\<close> and \<open>completeness\<close> are
  kept as numbers, before they are formatted for display.
\<close>

record ticker_stats =
  stats_ticker :: "string option"
  first_date :: string
  last_date :: string
  date_range_days :: int
  years :: rat
  expected_trading_days :: int
  record_count :: int
  completeness :: rat
  recent_count :: int
  ytd_count :: int

text \<open>
  The body of the loop \<^verbatim>\<open>for ticker in tickers\<close> in \<^verbatim>\<open>get_database_statistics\<close>, with the
  clock reading \<^verbatim>\<open>datetime.now()\<close> as the parameter \<open>now\<close>.
\<close>

definition get_ticker_statistics :: "ohlcv list \<Rightarrow> string option \<Rightarrow> datetime \<Rightarrow> error + ticker_stats" where
  "get_ticker_statistics db t now =
     (let rows = where_ticker db t;
          stats_first_date = sql_min (map date rows);
          stats_last_date = sql_max (map date rows);
          stats_record_count = sql_count rows
      in case strptime stats_first_date of Inl e \<Rightarrow> Inl e | Inr first_dt \<Rightarrow>
         case strptime stats_last_date of Inl e \<Rightarrow> Inl e | Inr last_dt \<Rightarrow>
         let days = ymd2ord last_dt - ymd2ord first_dt;
             yrs = float_div (of_int days) 365;
             expected = py_int (float_mul yrs 252)
         in case (if expected > 0 then truediv (of_int stats_record_count) (of_int expected) else Inr 0)
            of Inl e \<Rightarrow> Inl e | Inr compl \<Rightarrow>
         case minus_days now (3 * 365) of Inl e \<Rightarrow> Inl e | Inr three_years_ago \<Rightarrow>
         let recent = sql_count (where_ticker_since db t (Some (strftime three_years_ago)))
         in case mk_datetime (year now) 1 1 of Inl e \<Rightarrow> Inl e | Inr ytd \<Rightarrow>
         let ytd_records = sql_count (where_ticker_since db t (Some (strftime ytd)))
         in case format_float (sql_avg (map close_price rows)) of Inl e \<Rightarrow> Inl e | Inr _ \<Rightarrow>
         case format_float (sql_max (map high rows)) of Inl e \<Rightarrow> Inl e | Inr _ \<Rightarrow>
         case format_float (sql_min (map low rows)) of Inl e \<Rightarrow> Inl e | Inr _ \<Rightarrow>
         case format_float (sql_avg (map (map_option of_int \<circ> volume) rows)) of Inl e \<Rightarrow> Inl e | Inr _ \<Rightarrow>
         Inr \<lparr>stats_ticker = t,
              first_date = the stats_first_date,
              last_date = the stats_last_date,
              date_range_days = days,
              years = yrs,
              expected_trading_days = expected,
              record_count = stats_record_count,
              completeness = compl,
              recent_count = recent,
              ytd_count = ytd_records\<rparr>)"

text \<open>A loop whose body may raise: the first exception ends it.\<close>

fun for_each :: "('a \<Rightarrow> error + 'b) \<Rightarrow> 'a list \<Rightarrow> error + 'b list" where
  "for_each f [] = Inr []"
| "for_each f (x # xs) =
     (case f x of Inl e \<Rightarrow> Inl e
      | Inr y \<Rightarrow> (case for_each f xs of Inl e \<Rightarrow> Inl e | Inr ys \<Rightarrow> Inr (y # ys)))"

text \<open>
  \<^verbatim>\<open>get_database_statistics\<close>: the summary parses the least date of the whole table, then
  the loop runs; any exception is caught, reported and turned into \<^verbatim>\<open>False\<close>.
\<close>

definition get_database_statistics :: "store \<Rightarrow> datetime \<Rightarrow> bool" where
  "get_database_statistics st now =
     (case st of Inl e \<Rightarrow> False
      | Inr db \<Rightarrow>
          (case strptime (sql_min (map date db)) of Inl e \<Rightarrow> False
           | Inr oldest \<Rightarrow>
               (case for_each (\<lambda>t. get_ticker_statistics db t now) (distinct_tickers db)
                of Inl e \<Rightarrow> False | Inr ticker_stats \<Rightarrow> True)))"

text \<open>
  The entry that \<^verbatim>\<open>analyze_database\<close> appends to \<^verbatim>\<open>ticker_data\<close>, under the labels of the
  dictionary; \<open>expected_records\<close> is the local variable behind \<open>Completeness\<close>.
\<close>

record ticker_data =
  Ticker :: "string option"
  First_Date :: "string option"
  Last_Date :: "string option"
  Total_Records :: int
  Date_Range_days :: int
  expected_records :: int
  Completeness :: rat
  Recent_Records_3yr :: int

text \<open>
  \<^verbatim>\<open>cursor.fetchone()['date']\<close>: subscripting \<^verbatim>\<open>None\<close> (no row) is a \<^verbatim>\<open>TypeError\<close>.
\<close>

definition fetchone_date :: "string option option \<Rightarrow> error + string option" where
  "fetchone_date row = (case row of None \<Rightarrow> Inl TypeError | Some v \<Rightarrow> Inr v)"

text \<open>The body of the loop \<^verbatim>\<open>for ticker in tickers\<close> in \<^verbatim>\<open>analyze_database\<close>.\<close>

definition analyze_ticker :: "ohlcv list \<Rightarrow> string option \<Rightarrow> datetime \<Rightarrow> error + ticker_data" where
  "analyze_ticker db t now =
     (let rows = where_ticker db t
      in case fetchone_date (order_by_date_asc_limit_1 rows) of Inl e \<Rightarrow> Inl e | Inr earliest_date \<Rightarrow>
         case fetchone_date (order_by_date_desc_limit_1 rows) of Inl e \<Rightarrow> Inl e | Inr latest_date \<Rightarrow>
         let cnt = sql_count rows
         in case strptime earliest_date of Inl e \<Rightarrow> Inl e | Inr start_date \<Rightarrow>
         case strptime latest_date of Inl e \<Rightarrow> Inl e | Inr end_date \<Rightarrow>
         let days = ymd2ord end_date - ymd2ord start_date;
             yrs = float_div (of_int days) 365;
             expected = py_int (float_mul yrs 252)
         in case (if expected > 0 then truediv (of_int cnt) (of_int expected) else Inr 0)
            of Inl e \<Rightarrow> Inl e | Inr compl \<Rightarrow>
         case minus_days now (3 * 365) of Inl e \<Rightarrow> Inl e | Inr three_years_ago \<Rightarrow>
         let recent = sql_count (where_ticker_since db t (Some (strftime three_years_ago)))
         in Inr \<lparr>Ticker = t,
                 First_Date = earliest_date,
                 Last_Date = latest_date,
                 Total_Records = cnt,
                 Date_Range_days = days,
                 expected_records = expected,
                 Completeness = compl,
                 Recent_Records_3yr = recent\<rparr>)"

definition analyze_database :: "store \<Rightarrow> datetime \<Rightarrow> bool" where
  "analyze_database st now =
     (case st of Inl e \<Rightarrow> False
      | Inr db \<Rightarrow>
          (case for_each (\<lambda>t. analyze_ticker db t now) (distinct_tickers db)
           of Inl e \<Rightarrow> False | Inr ticker_data \<Rightarrow> True))"

section \<open>Cleaning the table (\<^verbatim>\<open>clean_database.py\<close>)\<close>

text \<open>The \<^verbatim>\<open>WHERE\<close> clause of the null check: one of the seven columns is \<^verbatim>\<open>NULL\<close>.\<close>

definition has_null :: "ohlcv \<Rightarrow> bool" where
  "has_null r \<longleftrightarrow>
     ticker r = None \<or> date r = None \<or> open_price r = None \<or> high r = None \<or>
     low r = None \<or> close_price r = None \<or> volume r = None"

definition group_key :: "ohlcv \<Rightarrow> string option \<times> string option" where
  "group_key r = (ticker r, date r)"

text \<open>
  \<^verbatim>\<open>SELECT ticker, date, COUNT(*) ... WHERE ... GROUP BY ticker, date\<close>: one row per
  distinct pair (two \<^verbatim>\<open>NULL\<close>s fall in the same group), in the order of the grouping key.
\<close>

definition null_records :: "ohlcv list \<Rightarrow> (string option \<times> string option \<times> int) list" where
  "null_records db =
     (let bad = filter has_null db
      in map (\<lambda>k. (fst k, snd k, sql_count (filter (\<lambda>r. group_key r = k) bad)))
           (sort (remdups (map group_key bad))))"

definition check_for_null_values :: "store \<Rightarrow> bool" where
  "check_for_null_values st =
     (case st of Inl e \<Rightarrow> False
      | Inr db \<Rightarrow> (if null_records db \<noteq> [] then False else True))"

text \<open>
  \<^verbatim>\<open>delete_ticker_data\<close> returns the store after the call and the number it reports; when
  the store cannot be used the handler returns 0.
\<close>

definition delete_ticker_data :: "store \<Rightarrow> string \<Rightarrow> store \<times> int" where
  "delete_ticker_data st t =
     (case st of Inl e \<Rightarrow> (st, 0)
      | Inr db \<Rightarrow>
          (let count_before = sql_count (where_ticker db (Some t));
               db' = filter (\<lambda>r. \<not> sql_eq (ticker r) (Some t)) db;
               count_after = sql_count (where_ticker db' (Some t))
           in (Inr db', count_before - count_after)))"

section \<open>Fetching quotes (\<^verbatim>\<open>fetch_data.py\<close>)\<close>

datatype json =
    JNull
  | JBool bool
  | JNumber rat
  | JString string
  | JArray "json list"
  | JObject "(string \<times> json) list"

text \<open>
  What \<^verbatim>\<open>requests.get\<close> meets: no response at all, or a response with a status code and a
  body that \<^verbatim>\<open>response.json()\<close> parses (\<open>Some\<close>) or rejects (\<open>None\<close>).
\<close>

datatype http_result =
    NoResponse
  | Response nat "json option"

record request =
  url :: string
  params :: "(string \<times> string) list"

type_synonym network = "request \<Rightarrow> http_result"

record AlphaVantageAPI =
  api_key :: string
  base_url :: string
  output_format :: string
  rate_limit :: nat

definition requests_get :: "network \<Rightarrow> request \<Rightarrow> error + (nat \<times> json option)" where
  "requests_get net req =
     (case net req of NoResponse \<Rightarrow> Inl RequestException | Response code body \<Rightarrow> Inr (code, body))"

text \<open>\<^verbatim>\<open>HTTPError\<close> is a \<^verbatim>\<open>RequestException\<close>.\<close>

definition raise_for_status :: "nat \<Rightarrow> error + unit" where
  "raise_for_status code = (if 400 \<le> code \<and> code < 600 then Inl RequestException else Inr ())"

definition response_json :: "json option \<Rightarrow> error + json" where
  "response_json body = (case body of None \<Rightarrow> Inl JSONDecodeError | Some data \<Rightarrow> Inr data)"

fun is_substring :: "string \<Rightarrow> string \<Rightarrow> bool" where
  "is_substring k [] = (k = [])"
| "is_substring k (c # cs) = (take (length k) (c # cs) = k \<or> is_substring k cs)"

text \<open>
  \<^verbatim>\<open>key in data\<close>: a key of an object, an element of an array, a substring of a string, and
  a \<^verbatim>\<open>TypeError\<close> on a number, a boolean or \<^verbatim>\<open>None\<close>.
\<close>

fun py_in :: "string \<Rightarrow> json \<Rightarrow> error + bool" where
  "py_in k (JObject kvs) = Inr (k \<in> set (map fst kvs))"
| "py_in k (JArray xs) = Inr (JString k \<in> set xs)"
| "py_in k (JString s) = Inr (is_substring k s)"
| "py_in k _ = Inl TypeError"

text \<open>\<^verbatim>\<open>data[key]\<close> with a string key: only an object can be subscripted so.\<close>

fun py_getitem :: "json \<Rightarrow> string \<Rightarrow> error + json" where
  "py_getitem (JObject kvs) k = (case map_of kvs k of None \<Rightarrow> Inl KeyError | Some v \<Rightarrow> Inr v)"
| "py_getitem _ k = Inl TypeError"

text \<open>The request that \<^verbatim>\<open>get_daily_time_series\<close> sends.\<close>

definition daily_request :: "AlphaVantageAPI \<Rightarrow> string \<Rightarrow> string \<Rightarrow> request" where
  "daily_request self symbol outputsize =
     \<lparr>url = base_url self,
      params = [(''function'', ''TIME_SERIES_DAILY''), (''symbol'', symbol),
                (''outputsize'', outputsize), (''apikey'', api_key self),
                (''datatype'', output_format self)]\<rparr>"

text \<open>The body of the \<^verbatim>\<open>try\<close> block of \<^verbatim>\<open>get_daily_time_series\<close>.\<close>

definition try_daily_time_series :: "network \<Rightarrow> AlphaVantageAPI \<Rightarrow> string \<Rightarrow> string \<Rightarrow> error + json option" where
  "try_daily_time_series net self symbol outputsize =
     (case requests_get net (daily_request self symbol outputsize) of
        Inl e \<Rightarrow> Inl e | Inr (code, body) \<Rightarrow>
         case raise_for_status code of Inl e \<Rightarrow> Inl e | Inr _ \<Rightarrow>
         case response_json body of Inl e \<Rightarrow> Inl e | Inr data \<Rightarrow>
         case py_in ''Error Message'' data of Inl e \<Rightarrow> Inl e
         | Inr True \<Rightarrow>
             (case py_getitem data ''Error Message'' of Inl e \<Rightarrow> Inl e | Inr msg \<Rightarrow> Inr None)
         | Inr False \<Rightarrow> Inr (Some data))"

text \<open>
  The three handlers (\<^verbatim>\<open>RequestException\<close>, \<^verbatim>\<open>JSONDecodeError\<close>, \<^verbatim>\<open>Exception\<close>) all log
  and return \<^verbatim>\<open>None\<close>.
\<close>

definition get_daily_time_series :: "network \<Rightarrow> AlphaVantageAPI \<Rightarrow> string \<Rightarrow> string \<Rightarrow> json option" where
  "get_daily_time_series net self symbol outputsize =
     (case try_daily_time_series net self symbol outputsize of
        Inl e \<Rightarrow> None
      | Inr result \<Rightarrow> result)"

section \<open>Well-formed input\<close>

text \<open>
  A date in the ISO 8601 form \<^verbatim>\<open>YYYY-MM-DD\<close>: ten characters, digits around two hyphens.
\<close>

definition iso_date :: "string \<Rightarrow> bool" where
  "iso_date s \<longleftrightarrow>
     length s = 10 \<and> is_digit (s ! 0) \<and> is_digit (s ! 1) \<and> is_digit (s ! 2) \<and>
     is_digit (s ! 3) \<and> s ! 4 = CHR ''-'' \<and> is_digit (s ! 5) \<and> is_digit (s ! 6) \<and>
     s ! 7 = CHR ''-'' \<and> is_digit (s ! 8) \<and> is_digit (s ! 9)"

text \<open>
  A price record as the data model has it: no field is missing and the date is an ISO date
  of the calendar.
\<close>

definition valid_record :: "ohlcv \<Rightarrow> bool" where
  "valid_record r \<longleftrightarrow>
     \<not> has_null r \<and>
     (case date r of None \<Rightarrow> False | Some s \<Rightarrow> iso_date s \<and> \<not> isl (strptime_str s))"

text \<open>
  A clock reading: a date that \<^verbatim>\<open>datetime\<close> can hold, late enough for the subtraction of
  1095 days to stay in range (1095 days after 0001-01-01 is 0003-12-31).
\<close>

definition clock_ok :: "datetime \<Rightarrow> bool" where
  "clock_ok now \<longleftrightarrow> valid_datetime now \<and> 1095 < ymd2ord now"

text \<open>The ordinal of the day a text denotes (0 for a text that is not a date).\<close>

definition ordinal_of :: "string \<Rightarrow> int" where
  "ordinal_of s = (case strptime_str s of Inl e \<Rightarrow> 0 | Inr dt \<Rightarrow> ymd2ord dt)"

text \<open>The dates of a selection, without the \<^verbatim>\<open>NULL\<close>s.\<close>

definition dates_of :: "ohlcv list \<Rightarrow> string list" where
  "dates_of rows = non_null (map date rows)"

section \<open>Example data\<close>

definition example_row :: "string \<Rightarrow> string \<Rightarrow> ohlcv" where
  "example_row t d =
     \<lparr>ticker = Some t, date = Some d, open_price = Some 10, high = Some 12, low = Some 9,
      close_price = Some 11, volume = Some 1000\<rparr>"

text \<open>Three consecutive trading days of one ticker and a row of another.\<close>

definition example_db :: "ohlcv list" where
  "example_db =
     [example_row ''XYZ'' ''2024-01-03'', example_row ''ABC'' ''2022-05-02'',
      example_row ''XYZ'' ''2024-01-02'', example_row ''XYZ'' ''2024-01-04'']"

definition example_now :: datetime where
  "example_now = \<lparr>year = 2026, month = 11, day = 4\<rparr>"

section \<open>Properties of the floating-point model\<close>

lemma bitlen_rat_bounds:
  assumes "0 < (p::int)"
  shows "(2::rat) powi (bitlen p - 1) \<le> of_int p" "(of_int p :: rat) < 2 powi (bitlen p)"
proof -
  from bitlen_bounds[OF assms] have a: "2 ^ nat (bitlen p - 1) \<le> p" and b: "p < 2 ^ nat (bitlen p)"
    by auto
  have ge1: "1 \<le> bitlen p" using assms by (auto simp: bitlen_alt_def)
  from a have "(of_int (2 ^ nat (bitlen p - 1)) :: rat) \<le> of_int p" by (simp only: of_int_le_iff)
  then show "(2::rat) powi (bitlen p - 1) \<le> of_int p"
    using ge1 by (simp add: power_int_def)
  from b have "(of_int p :: rat) < of_int (2 ^ nat (bitlen p))" by (simp only: of_int_less_iff)
  then show "(of_int p :: rat) < 2 powi (bitlen p)"
    using ge1 by (simp add: power_int_def)
qed

lemma float_exponent_bounds:
  assumes "0 < x"
  shows "2 powi (float_exponent x) \<le> x" "x < 2 powi (float_exponent x + 1)"
proof -
  obtain p q where pq: "quotient_of x = (p, q)" by (cases "quotient_of x")
  have q: "0 < q" using pq by (rule quotient_of_denom_pos)
  have x: "x = of_int p / of_int q" using pq by (rule quotient_of_div)
  have p: "0 < p" using assms q x by (simp add: zero_less_divide_iff)
  define e where "e = bitlen p - bitlen q"
  have lo: "(2::rat) powi (e - 1) \<le> x"
  proof -
    have "(2::rat) powi (e - 1) = 2 powi (bitlen p - 1) / 2 powi (bitlen q)"
      unfolding e_def by (simp add: power_int_diff)
    also have "\<dots> \<le> of_int p / 2 powi (bitlen q)"
      using bitlen_rat_bounds(1)[OF p] by (simp add: divide_right_mono)
    also have "\<dots> \<le> of_int p / of_int q"
      using bitlen_rat_bounds(2)[OF q] p q by (simp add: frac_le)
    finally show ?thesis by (simp add: x)
  qed
  have hi: "x < (2::rat) powi (e + 1)"
  proof -
    have "x = of_int p / of_int q" by (rule x)
    also have "\<dots> < 2 powi (bitlen p) / of_int q"
      using bitlen_rat_bounds(2)[OF p] q by (simp add: divide_strict_right_mono)
    also have "\<dots> \<le> 2 powi (bitlen p) / 2 powi (bitlen q - 1)"
      using bitlen_rat_bounds(1)[OF q] by (simp add: frac_le)
    also have "\<dots> = 2 powi (e + 1)"
      unfolding e_def by (simp add: power_int_diff power_int_add)
    finally show ?thesis .
  qed
  have fe: "float_exponent x = (if 2 powi e \<le> x then e else e - 1)"
    by (simp add: float_exponent_def pq e_def Let_def)
  show "2 powi (float_exponent x) \<le> x" using lo by (simp add: fe)
  show "x < 2 powi (float_exponent x + 1)" using hi by (auto simp add: fe)
qed

lemma float_exponent_unique:
  assumes "2 powi e \<le> x" "x < 2 powi (e + 1)"
  shows "float_exponent x = e"
proof -
  have "(0::rat) < 2 powi e" by simp
  then have pos: "0 < x" using assms(1) by (rule less_le_trans)
  note b = float_exponent_bounds[OF pos]
  have 1: "e < float_exponent x + 1"
  proof (rule ccontr)
    assume "\<not> e < float_exponent x + 1"
    then have "(2::rat) powi (float_exponent x + 1) \<le> 2 powi e"
      by (intro power_int_increasing) auto
    with assms(1) b(2) show False by simp
  qed
  have 2: "float_exponent x < e + 1"
  proof (rule ccontr)
    assume "\<not> float_exponent x < e + 1"
    then have "(2::rat) powi (e + 1) \<le> 2 powi (float_exponent x)"
      by (intro power_int_increasing) auto
    with assms(2) b(1) show False by simp
  qed
  from 1 2 show ?thesis by simp
qed

lemma round_half_even_error: "\<bar>of_int (round_half_even x) - x\<bar> \<le> 1 / 2"
proof -
  have "of_int \<lfloor>x\<rfloor> \<le> x" "x < of_int \<lfloor>x\<rfloor> + 1" by linarith+
  then show ?thesis
    unfolding round_half_even_def Let_def by (auto simp: abs_le_iff)
qed

lemma round_half_even_of_int: "round_half_even (of_int k) = k"
  by (simp add: round_half_even_def)

lemma round_double_error:
  "\<bar>round_double x - x\<bar> \<le> \<bar>x\<bar> / 2 ^ 53"
proof (cases "x = 0")
  case True
  then show ?thesis by (simp add: round_double_def)
next
  case False
  define e where "e = float_exponent \<bar>x\<bar>"
  define u :: rat where "u = 2 powi (e - 52)"
  define r :: rat where "r = of_int (round_half_even (x / u))"
  have upos: "0 < u" by (simp add: u_def)
  have lo: "2 powi e \<le> \<bar>x\<bar>"
    unfolding e_def using False by (intro float_exponent_bounds) simp
  have rd: "round_double x = r * u"
    using False by (simp add: round_double_def Let_def u_def e_def r_def)
  have "r * u - x = (r - x / u) * u"
    using upos by (simp add: field_simps)
  then have "\<bar>round_double x - x\<bar> = \<bar>r - x / u\<bar> * u"
    using upos by (simp add: rd abs_mult)
  also have "\<dots> \<le> (1 / 2) * u"
    using round_half_even_error[of "x / u"] upos unfolding r_def by (intro mult_right_mono) auto
  also have "\<dots> = 2 powi e / 2 ^ 53"
    by (simp add: u_def power_int_diff)
  also have "\<dots> \<le> \<bar>x\<bar> / 2 ^ 53"
    using lo by (simp add: divide_right_mono)
  finally show ?thesis .
qed

lemma round_double_of_int:
  assumes "\<bar>k\<bar> < 2 ^ 53"
  shows "round_double (of_int k) = of_int k"
proof (cases "k = 0")
  case True
  then show ?thesis by (simp add: round_double_def)
next
  case False
  define x :: rat where "x = of_int k"
  define e where "e = float_exponent \<bar>x\<bar>"
  define n where "n = nat (52 - e)"
  have xnz: "x \<noteq> 0" using False by (simp add: x_def)
  have lo: "2 powi e \<le> \<bar>x\<bar>"
    unfolding e_def using xnz by (intro float_exponent_bounds) simp
  have "of_int \<bar>k\<bar> < (2 ^ 53 :: rat)"
    using assms by (simp only: of_int_less_numeral_power_cancel_iff)
  then have hi: "\<bar>x\<bar> < 2 powi 53"
    unfolding x_def by simp
  have e52: "e \<le> 52"
  proof (rule ccontr)
    assume "\<not> e \<le> 52"
    then have "(2::rat) powi 53 \<le> 2 powi e"
      by (intro power_int_increasing) auto
    with lo hi show False by simp
  qed
  have u: "(2::rat) powi (e - 52) = 1 / 2 ^ n"
    using e52 unfolding n_def by (simp add: power_int_def field_simps)
  have "x / (2 powi (e - 52)) = of_int (k * 2 ^ n)"
    by (simp add: u x_def)
  then have "round_half_even (x / (2 powi (e - 52))) = k * 2 ^ n"
    by (simp only: round_half_even_of_int)
  then have "round_double x = of_int (k * 2 ^ n) * (1 / 2 ^ n)"
    using xnz by (simp add: round_double_def Let_def u flip: e_def)
  then show ?thesis by (simp add: x_def)
qed

lemma dvd_365:
  assumes "(365::int) dvd 252 * d"
  shows "365 dvd d"
proof -
  from assms obtain m where m: "252 * d = 365 * m" by (auto simp: dvd_def)
  then have "d = 365 * (29 * d - 42 * m)" by simp
  then show ?thesis by (rule dvdI)
qed

lemma expected_days_multiple:
  assumes "0 \<le> k" "k \<le> 3652058"
  shows "py_int (float_mul (round_double (of_int (365 * k) / 365)) 252) = k * 252"
proof -
  have "round_double (of_int k) = of_int k"
    using assms by (intro round_double_of_int) auto
  moreover have "round_double (of_int (k * 252)) = of_int (k * 252)"
    using assms by (intro round_double_of_int) auto
  ultimately have "float_mul (round_double (of_int (365 * k) / 365)) 252 = of_int (k * 252)"
    by (simp add: float_mul_def)
  moreover have "py_int (of_int (k * 252)) = k * 252"
    using assms unfolding py_int_def by (simp only: of_int_0_le_iff floor_of_int) simp
  ultimately show ?thesis by simp
qed

lemma two_roundings_error:
  assumes "0 \<le> x"
  shows "\<bar>round_double (round_double x * 252) - x * 252\<bar> \<le> 756 * x / 2 ^ 53"
proof -
  define y where "y = round_double x"
  define z where "z = round_double (y * 252)"
  have ey: "\<bar>y - x\<bar> \<le> x / 2 ^ 53"
    using round_double_error[of x] assms by (simp add: y_def)
  have ez: "\<bar>z - y * 252\<bar> \<le> \<bar>y\<bar> * 252 / 2 ^ 53"
    using round_double_error[of "y * 252"] by (simp add: z_def abs_mult)
  have "x / 2 ^ 53 \<le> x" using assms by (simp add: field_simps)
  with ey have yb: "\<bar>y\<bar> \<le> 2 * x" by linarith
  then have "\<bar>y\<bar> * 252 / 2 ^ 53 \<le> 2 * x * 252 / 2 ^ 53"
    by (simp add: divide_right_mono)
  with ez have ez': "\<bar>z - y * 252\<bar> \<le> 504 * x / 2 ^ 53" by simp
  have "z - x * 252 = (z - y * 252) + 252 * (y - x)" by simp
  then have "\<bar>z - x * 252\<bar> \<le> \<bar>z - y * 252\<bar> + \<bar>252 * (y - x)\<bar>"
    by (simp only: abs_triangle_ineq)
  also have "\<dots> = \<bar>z - y * 252\<bar> + 252 * \<bar>y - x\<bar>"
    by (simp only: abs_mult abs_numeral)
  also have "\<dots> \<le> 504 * x / 2 ^ 53 + 252 * (x / 2 ^ 53)"
    using ey ez' by (intro add_mono mult_left_mono) simp_all
  also have "\<dots> = 756 * x / 2 ^ 53" by simp
  finally show ?thesis by (simp add: y_def z_def)
qed


lemma expected_days_exact:
  assumes "0 \<le> d" "d \<le> 3652058"
  shows "py_int (float_mul (round_double (of_int d / 365)) 252) = d * 252 div 365"
proof (cases "365 dvd d")
  case True
  then obtain k where k: "d = 365 * k" by (auto simp: dvd_def)
  have kb: "0 \<le> k" "k \<le> 3652058" using assms k by auto
  have "d * 252 div 365 = k * 252" by (simp add: k)
  then show ?thesis using expected_days_multiple[OF kb] by (simp only: k)
next
  case False
  define x :: rat where "x = of_int d / 365"
  define z where "z = round_double (round_double x * 252)"
  define q where "q = d * 252 div 365"
  define r where "r = d * 252 mod 365"
  have xb: "0 \<le> x" "x \<le> 3652058 / 365" using assms by (simp_all add: x_def)
  have "756 * x / 2 ^ 53 \<le> 756 * (3652058 / 365) / 2 ^ 53"
    using xb(2) by (simp add: divide_right_mono)
  also have "\<dots> < (1 / 365 :: rat)" by simp
  finally have "756 * x / 2 ^ 53 < 1 / 365" .
  with two_roundings_error[OF xb(1)] have err: "\<bar>z - x * 252\<bar> < 1 / 365"
    unfolding z_def by linarith
  have "\<not> 365 dvd 252 * d" using False dvd_365 by blast
  then have "r \<noteq> 0" by (simp add: r_def mult.commute dvd_eq_mod_eq_0)
  moreover have "0 \<le> r" "r < 365" by (simp_all add: r_def)
  ultimately have rb: "1 \<le> r" "r \<le> 364" by auto
  then have rb': "(1::rat) \<le> of_int r" "of_int r \<le> (364::rat)" by simp_all
  have "d * 252 = 365 * q + r" by (simp add: q_def r_def)
  then have "of_int (d * 252) = (of_int (365 * q + r) :: rat)" by simp
  then have "x * 252 * 365 = (of_int q + of_int r / 365) * 365" by (simp add: x_def)
  then have t: "x * 252 = of_int q + of_int r / 365" by simp
  have "of_int q + 1 / 365 \<le> x * 252" "x * 252 \<le> of_int q + 364 / 365"
    using rb' by (simp_all add: t divide_right_mono)
  with err have zq: "of_int q < z" "z < of_int q + 1"
    by linarith+
  then have fl: "\<lfloor>z\<rfloor> = q" by linarith
  have "0 \<le> q" using assms by (simp add: q_def pos_imp_zdiv_nonneg_iff)
  then have "(0::rat) \<le> of_int q" by simp
  with zq(1) have "0 \<le> z" by linarith
  then have "py_int z = q" using fl by (simp add: py_int_def)
  then show ?thesis by (simp add: float_mul_def z_def x_def q_def)
qed

section \<open>Properties of the calendar\<close>

lemma month_cases:
  assumes "1 \<le> m" "m \<le> 12"
  shows "m = 1 \<or> m = 2 \<or> m = 3 \<or> m = 4 \<or> m = 5 \<or> m = 6 \<or> m = 7 \<or> m = 8 \<or> m = 9 \<or> m = 10 \<or> m = 11 \<or> m = (12::int)"
  using assms by arith

lemma days_before_month_next:
  assumes "1 \<le> m" "m \<le> 11"
  shows "days_before_month y (m + 1) = days_before_month y m + days_in_month y m"
proof -
  from assms have "m = 1 \<or> m = 2 \<or> m = 3 \<or> m = 4 \<or> m = 5 \<or> m = 6 \<or> m = 7 \<or> m = 8 \<or> m = 9 \<or> m = 10 \<or> m = 11"
    by arith
  then show ?thesis
    by (elim disjE) (simp_all add: days_before_month_def days_before_month_in_def days_in_month_def)
qed

lemma days_in_month_pos: "1 \<le> days_in_month y m"
  by (simp add: days_in_month_def)

lemma days_before_month_mono:
  assumes "1 \<le> m" "m \<le> m'" "m' \<le> 12"
  shows "days_before_month y m \<le> days_before_month y m'"
proof -
  have "days_before_month y m \<le> days_before_month y (m + int k)" if "m + int k \<le> 12" for k
    using that
  proof (induction k)
    case 0
    then show ?case by simp
  next
    case (Suc k)
    then have "days_before_month y (m + int k + 1) = days_before_month y (m + int k) + days_in_month y (m + int k)"
      using assms(1) by (intro days_before_month_next) auto
    moreover have "m + int (Suc k) = m + int k + 1" by simp
    ultimately show ?case
      using Suc days_in_month_pos[of y "m + int k"] by (simp only:) simp
  qed
  from this[of "nat (m' - m)"] assms show ?thesis by simp
qed

lemma days_before_month_12:
  "days_before_month y 12 + days_in_month y 12 = (if is_leap y then 366 else 365)"
  by (simp add: days_before_month_def days_before_month_in_def days_in_month_def)

lemma div_step:
  assumes "0 < (n::int)"
  shows "y div n = (y - 1) div n + (if y mod n = 0 then 1 else 0)"
proof (cases "y mod n = 0")
  case True
  then have "y = n * (y div n)" by auto
  then have "y - 1 = n * (y div n - 1) + (n - 1)" by (simp add: algebra_simps)
  then have "(y - 1) div n = y div n - 1"
    by (rule int_div_pos_eq) (use assms in simp_all)
  with True show ?thesis by simp
next
  case False
  have r: "0 \<le> y mod n" "y mod n < n" using assms by simp_all
  have "y - 1 = n * (y div n) + (y mod n - 1)" by simp
  then have "(y - 1) div n = y div n"
    by (rule int_div_pos_eq) (use r False in simp_all)
  with False show ?thesis by simp
qed

lemma days_before_year_Suc:
  "days_before_year (y + 1) = days_before_year y + (if is_leap y then 366 else 365)"
proof -
  define q4 q100 q400 where "q4 = (y - 1) div 4" and "q100 = (y - 1) div 100" and "q400 = (y - 1) div 400"
  define e4 e100 e400 :: int where "e4 = (if y mod 4 = 0 then 1 else 0)"
    and "e100 = (if y mod 100 = 0 then 1 else 0)" and "e400 = (if y mod 400 = 0 then 1 else 0)"
  have 4: "y div 4 = q4 + e4" unfolding q4_def e4_def by (rule div_step) simp
  have 100: "y div 100 = q100 + e100" unfolding q100_def e100_def by (rule div_step) simp
  have 400: "y div 400 = q400 + e400" unfolding q400_def e400_def by (rule div_step) simp
  have a: "y mod 100 = 0 \<Longrightarrow> y mod 4 = 0" by (simp add: mod_eq_0_iff_dvd dvd_trans[of 4 100 y])
  have b: "y mod 400 = 0 \<Longrightarrow> y mod 100 = 0" by (simp add: mod_eq_0_iff_dvd dvd_trans[of 100 400 y])
  have "days_before_year (y + 1) = y * 365 + y div 4 - y div 100 + y div 400"
    by (simp add: days_before_year_def)
  also have "\<dots> = y * 365 + (q4 + e4) - (q100 + e100) + (q400 + e400)"
    by (simp only: 4 100 400)
  also have "\<dots> = days_before_year y + (365 + e4 - e100 + e400)"
    unfolding days_before_year_def Let_def q4_def q100_def q400_def by (simp add: algebra_simps)
  also have "365 + e4 - e100 + e400 = (if is_leap y then 366 else 365)"
  proof (cases "y mod 4 = 0")
    case False
    with a b have "y mod 100 \<noteq> 0" "y mod 400 \<noteq> 0" by argo+
    with False show ?thesis by (simp add: e4_def e100_def e400_def is_leap_def)
  next
    case True
    show ?thesis
    proof (cases "y mod 100 = 0")
      case False
      with b have "y mod 400 \<noteq> 0" by argo
      with True False show ?thesis by (simp add: e4_def e100_def e400_def is_leap_def)
    next
      case h: True
      with True show ?thesis by (simp add: e4_def e100_def e400_def is_leap_def)
    qed
  qed
  finally show ?thesis .
qed

lemma days_before_year_mono:
  assumes "y \<le> y'"
  shows "days_before_year y \<le> days_before_year y'"
proof -
  have "days_before_year y \<le> days_before_year (y + int k)" for k
  proof (induction k)
    case 0
    then show ?case by simp
  next
    case (Suc k)
    have "days_before_year (y + int k + 1) = days_before_year (y + int k) + (if is_leap (y + int k) then 366 else 365)"
      by (rule days_before_year_Suc)
    moreover have "y + int (Suc k) = y + int k + 1" by simp
    ultimately show ?case using Suc by (simp only:) (simp split: if_splits)
  qed
  from this[of "nat (y' - y)"] assms show ?thesis by simp
qed

lemma ymd2ord_mono:
  assumes "valid_datetime a" "valid_datetime b"
    and "year a < year b \<or> year a = year b \<and> (month a < month b \<or> month a = month b \<and> day a \<le> day b)"
  shows "ymd2ord a \<le> ymd2ord b"
proof -
  have va: "1 \<le> month a" "month a \<le> 12" "1 \<le> day a" "day a \<le> days_in_month (year a) (month a)"
    using assms(1) by (simp_all add: valid_datetime_def)
  have vb: "1 \<le> month b" "month b \<le> 12" "1 \<le> day b" "day b \<le> days_in_month (year b) (month b)"
    using assms(2) by (simp_all add: valid_datetime_def)
  have within: "days_before_month (year a) (month a) + day a \<le> days_before_month (year a) m'"
    if "month a < m'" "m' \<le> 12" for m'
  proof -
    have "days_before_month (year a) (month a) + day a \<le> days_before_month (year a) (month a + 1)"
      using va that by (simp add: days_before_month_next)
    also have "\<dots> \<le> days_before_month (year a) m'"
      using va that by (intro days_before_month_mono) auto
    finally show ?thesis .
  qed
  have year_end: "days_before_month (year a) (month a) + day a \<le> (if is_leap (year a) then 366 else 365)"
  proof (cases "month a = 12")
    case True
    then show ?thesis using va(4) days_before_month_12[of "year a"] by (simp split: if_splits)
  next
    case False
    then have "days_before_month (year a) (month a) + day a \<le> days_before_month (year a) 12"
      using va by (intro within) auto
    then show ?thesis using days_before_month_12[of "year a"] days_in_month_pos[of "year a" 12]
      by (simp split: if_splits)
  qed
  have nonneg: "0 \<le> days_before_month (year b) (month b)"
    using days_before_month_mono[of 1 "month b" "year b"] vb
    by (simp add: days_before_month_def days_before_month_in_def)
  from assms(3) show ?thesis
  proof (elim disjE conjE)
    assume "year a < year b"
    then have "days_before_year (year a + 1) \<le> days_before_year (year b)"
      by (intro days_before_year_mono) simp
    then show ?thesis
      using year_end nonneg vb(3) unfolding ymd2ord_def days_before_year_Suc
      by (simp split: if_splits)
  next
    assume "year a = year b" "month a < month b"
    then show ?thesis using within[of "month b"] vb unfolding ymd2ord_def by simp
  next
    assume "year a = year b" "month a = month b" "day a \<le> day b"
    then show ?thesis unfolding ymd2ord_def by simp
  qed
qed

lemma ymd2ord_range:
  assumes "valid_datetime a"
  shows "1 \<le> ymd2ord a" "ymd2ord a \<le> 3652059"
proof -
  have lo: "valid_datetime \<lparr>year = 1, month = 1, day = 1\<rparr>"
    by (simp add: valid_datetime_def days_in_month_def)
  have hi: "valid_datetime \<lparr>year = 9999, month = 12, day = 31\<rparr>"
    by (simp add: valid_datetime_def days_in_month_def)
  have "ymd2ord \<lparr>year = 1, month = 1, day = 1\<rparr> \<le> ymd2ord a"
    using assms by (intro ymd2ord_mono[OF lo]) (auto simp: valid_datetime_def)
  then show "1 \<le> ymd2ord a"
    by (simp add: ymd2ord_def days_before_year_def days_before_month_def days_before_month_in_def)
  have "ymd2ord a \<le> ymd2ord \<lparr>year = 9999, month = 12, day = 31\<rparr>"
    using assms by (intro ymd2ord_mono[OF _ hi]) (auto simp: valid_datetime_def days_in_month_def split: if_splits)
  then show "ymd2ord a \<le> 3652059"
    by (simp add: ymd2ord_def days_before_year_def days_before_month_def days_before_month_in_def is_leap_def)
qed

lemma digit_val_range: "is_digit c \<Longrightarrow> 0 \<le> digit_val c \<and> digit_val c \<le> 9"
  by (simp add: is_digit_def digit_val_def less_eq_char_def)

lemma digit_val_less: "c < c' \<longleftrightarrow> digit_val c < digit_val c'"
  by (simp add: digit_val_def less_char_def)

lemma digit_val_eq: "c = c' \<longleftrightarrow> digit_val c = digit_val c'"
  by (auto simp: digit_val_def)

lemma length_10_shape:
  assumes "length s = 10"
  shows "s = [s ! 0, s ! 1, s ! 2, s ! 3, s ! 4, s ! 5, s ! 6, s ! 7, s ! 8, s ! 9]"
proof (rule nth_equalityI)
  show "length s = length [s ! 0, s ! 1, s ! 2, s ! 3, s ! 4, s ! 5, s ! 6, s ! 7, s ! 8, s ! 9]"
    using assms by simp
next
  fix i
  assume "i < length s"
  then have "i = 0 \<or> i = 1 \<or> i = 2 \<or> i = 3 \<or> i = 4 \<or> i = 5 \<or> i = 6 \<or> i = 7 \<or> i = 8 \<or> i = 9"
    using assms by arith
  then show "s ! i = [s ! 0, s ! 1, s ! 2, s ! 3, s ! 4, s ! 5, s ! 6, s ! 7, s ! 8, s ! 9] ! i"
    by (elim disjE) simp_all
qed

lemma strptime_iso_fields:
  assumes "strptime_str [y1, y2, y3, y4, CHR ''-'', m1, m2, CHR ''-'', d1, d2] = Inr dt"
    and "is_digit m1" "is_digit d1"
  shows "year dt = 1000 * digit_val y1 + 100 * digit_val y2 + 10 * digit_val y3 + digit_val y4"
    and "month dt = 10 * digit_val m1 + digit_val m2"
    and "day dt = 10 * digit_val d1 + digit_val d2"
    and "valid_datetime dt"
  using assms
  by (auto simp: mk_datetime_def Let_def digit_val_def is_digit_def split: if_splits option.splits)

lemma digit_val_le: "c \<le> c' \<longleftrightarrow> digit_val c \<le> digit_val c'"
  by (simp add: digit_val_def less_eq_char_def)

lemma lex_digits_le:
  fixes e1 e2 e3 e4 e5 e6 e7 e8 f1 f2 f3 f4 f5 f6 f7 f8 :: int
  assumes "0 \<le> e2 \<and> e2 \<le> 9" "0 \<le> e3 \<and> e3 \<le> 9" "0 \<le> e4 \<and> e4 \<le> 9"
    "0 \<le> e5 \<and> e5 \<le> 9" "0 \<le> e6 \<and> e6 \<le> 9" "0 \<le> e7 \<and> e7 \<le> 9" "0 \<le> e8 \<and> e8 \<le> 9"
    "0 \<le> f2 \<and> f2 \<le> 9" "0 \<le> f3 \<and> f3 \<le> 9" "0 \<le> f4 \<and> f4 \<le> 9"
    "0 \<le> f5 \<and> f5 \<le> 9" "0 \<le> f6 \<and> f6 \<le> 9" "0 \<le> f7 \<and> f7 \<le> 9" "0 \<le> f8 \<and> f8 \<le> 9"
    and "e1 < f1 \<or> e1 = f1 \<and> (e2 < f2 \<or> e2 = f2 \<and> (e3 < f3 \<or> e3 = f3 \<and> (e4 < f4 \<or> e4 = f4 \<and>
         (e5 < f5 \<or> e5 = f5 \<and> (e6 < f6 \<or> e6 = f6 \<and> (e7 < f7 \<or> e7 = f7 \<and> e8 \<le> f8))))))"
  shows "(1000 * e1 + 100 * e2 + 10 * e3 + e4) * 10000 + (10 * e5 + e6) * 100 + (10 * e7 + e8)
       \<le> (1000 * f1 + 100 * f2 + 10 * f3 + f4) * 10000 + (10 * f5 + f6) * 100 + (10 * f7 + f8)"
  using assms by (elim disjE conjE) simp_all

lemma iso_le_key:
  assumes "iso_date s" "iso_date s'" "s \<le> s'"
    and "strptime_str s = Inr a" "strptime_str s' = Inr b"
  shows "year a * 10000 + month a * 100 + day a \<le> year b * 10000 + month b * 100 + day b"
proof -
  define y1 y2 y3 y4 m1 m2 d1 d2 where
    "y1 = s ! 0" and "y2 = s ! 1" and "y3 = s ! 2" and "y4 = s ! 3" and
    "m1 = s ! 5" and "m2 = s ! 6" and "d1 = s ! 8" and "d2 = s ! 9"
  define z1 z2 z3 z4 n1 n2 c1 c2 where
    "z1 = s' ! 0" and "z2 = s' ! 1" and "z3 = s' ! 2" and "z4 = s' ! 3" and
    "n1 = s' ! 5" and "n2 = s' ! 6" and "c1 = s' ! 8" and "c2 = s' ! 9"
  have s: "s = [y1, y2, y3, y4, CHR ''-'', m1, m2, CHR ''-'', d1, d2]"
    using assms(1) length_10_shape[of s]
    unfolding iso_date_def y1_def y2_def y3_def y4_def m1_def m2_def d1_def d2_def by metis
  have d: "is_digit y1" "is_digit y2" "is_digit y3" "is_digit y4"
    "is_digit m1" "is_digit m2" "is_digit d1" "is_digit d2"
    using assms(1)
    unfolding iso_date_def y1_def y2_def y3_def y4_def m1_def m2_def d1_def d2_def by blast+
  have s': "s' = [z1, z2, z3, z4, CHR ''-'', n1, n2, CHR ''-'', c1, c2]"
    using assms(2) length_10_shape[of s']
    unfolding iso_date_def z1_def z2_def z3_def z4_def n1_def n2_def c1_def c2_def by metis
  have d': "is_digit z1" "is_digit z2" "is_digit z3" "is_digit z4"
    "is_digit n1" "is_digit n2" "is_digit c1" "is_digit c2"
    using assms(2)
    unfolding iso_date_def z1_def z2_def z3_def z4_def n1_def n2_def c1_def c2_def by blast+
  note fa = strptime_iso_fields(1-3)[OF assms(4)[unfolded s] d(5) d(7)]
  note fb = strptime_iso_fields(1-3)[OF assms(5)[unfolded s'] d'(5) d'(7)]
  have cl: "y1 < z1 \<or> y1 = z1 \<and> (y2 < z2 \<or> y2 = z2 \<and> (y3 < z3 \<or> y3 = z3 \<and>
     (y4 < z4 \<or> y4 = z4 \<and> (m1 < n1 \<or> m1 = n1 \<and> (m2 < n2 \<or> m2 = n2 \<and>
     (d1 < c1 \<or> d1 = c1 \<and> d2 \<le> c2))))))"
    using assms(3) unfolding s s' by (simp add: le_less[of d2 c2])
  have le: "digit_val y1 < digit_val z1 \<or> digit_val y1 = digit_val z1 \<and>
     (digit_val y2 < digit_val z2 \<or> digit_val y2 = digit_val z2 \<and>
     (digit_val y3 < digit_val z3 \<or> digit_val y3 = digit_val z3 \<and>
     (digit_val y4 < digit_val z4 \<or> digit_val y4 = digit_val z4 \<and>
     (digit_val m1 < digit_val n1 \<or> digit_val m1 = digit_val n1 \<and>
     (digit_val m2 < digit_val n2 \<or> digit_val m2 = digit_val n2 \<and>
     (digit_val d1 < digit_val c1 \<or> digit_val d1 = digit_val c1 \<and>
      digit_val d2 \<le> digit_val c2))))))"
    using cl by (simp only: digit_val_less digit_val_eq digit_val_le)
  show ?thesis
    unfolding fa fb
    by (rule lex_digits_le[OF _ _ _ _ _ _ _ _ _ _ _ _ _ _ le]) (simp_all add: digit_val_range d d')
qed

section \<open>Properties of the coverage statistics\<close>

lemma strptime_str_valid: "strptime_str s = Inr dt \<Longrightarrow> valid_datetime dt"
  by (erule strptime_str.elims)
     (auto simp: mk_datetime_def Let_def split: if_splits option.splits)

lemma iso_ordinal_mono:
  assumes "iso_date s" "iso_date s'" "s \<le> s'" "\<not> isl (strptime_str s)" "\<not> isl (strptime_str s')"
  shows "ordinal_of s \<le> ordinal_of s'"
proof -
  from assms(4) obtain a where a: "strptime_str s = Inr a" by (cases "strptime_str s") auto
  from assms(5) obtain b where b: "strptime_str s' = Inr b" by (cases "strptime_str s'") auto
  have va: "valid_datetime a" and vb: "valid_datetime b"
    using a b by (auto dest: strptime_str_valid)
  have key: "year a * 10000 + month a * 100 + day a \<le> year b * 10000 + month b * 100 + day b"
    using assms(1-3) a b by (rule iso_le_key)
  have ra: "1 \<le> month a" "month a \<le> 12" "1 \<le> day a" "day a \<le> 31"
    using va by (auto simp: valid_datetime_def days_in_month_def split: if_splits)
  have rb: "1 \<le> month b" "month b \<le> 12" "1 \<le> day b" "day b \<le> 31"
    using vb by (auto simp: valid_datetime_def days_in_month_def split: if_splits)
  have "year a < year b \<or> year a = year b \<and> (month a < month b \<or> month a = month b \<and> day a \<le> day b)"
    using key ra rb by arith
  with va vb have "ymd2ord a \<le> ymd2ord b" by (rule ymd2ord_mono)
  then show ?thesis by (simp add: ordinal_of_def a b)
qed

lemma ordinal_of_range:
  assumes "\<not> isl (strptime_str s)"
  shows "1 \<le> ordinal_of s" "ordinal_of s \<le> 3652059"
proof -
  from assms obtain a where a: "strptime_str s = Inr a" by (cases "strptime_str s") auto
  then have "valid_datetime a" by (rule strptime_str_valid)
  from ymd2ord_range[OF this] show "1 \<le> ordinal_of s" "ordinal_of s \<le> 3652059"
    by (simp_all add: ordinal_of_def a)
qed

lemma fold_min_Min: "fold min xs (x::'a::linorder) = Min (set (x # xs))"
  by (rule Min.set_eq_fold[symmetric])

lemma fold_max_Max: "fold max xs (x::'a::linorder) = Max (set (x # xs))"
  by (rule Max.set_eq_fold[symmetric])

lemma sql_min_Some:
  assumes "non_null vs \<noteq> []"
  shows "sql_min vs = Some (Min (set (non_null vs)))"
  using assms by (cases "non_null vs") (simp_all add: sql_min_def fold_min_Min)

lemma sql_max_Some:
  assumes "non_null vs \<noteq> []"
  shows "sql_max vs = Some (Max (set (non_null vs)))"
  using assms by (cases "non_null vs") (simp_all add: sql_max_def fold_max_Max)

lemma sql_avg_Some:
  assumes "non_null vs \<noteq> []"
  shows "\<exists>x. sql_avg vs = Some x"
  using assms by (cases "non_null vs") (simp_all add: sql_avg_def)

lemma set_non_null: "set (non_null vs) = {x. Some x \<in> set vs}"
  by (induction vs) (auto simp: non_null_def split: option.splits)

lemma non_null_all_Some:
  assumes "\<forall>v\<in>set vs. v \<noteq> None"
  shows "map Some (non_null vs) = vs"
  using assms by (induction vs) (auto simp: non_null_def)

lemma non_null_nonempty:
  assumes "rows \<noteq> []" "\<forall>r\<in>set rows. f r \<noteq> None"
  shows "non_null (map f rows) \<noteq> []"
proof -
  have "map Some (non_null (map f rows)) = map f rows"
    using assms(2) by (intro non_null_all_Some) auto
  with assms(1) show ?thesis by auto
qed

lemma valid_record_fields:
  assumes "valid_record r"
  shows "ticker r \<noteq> None" "date r \<noteq> None" "open_price r \<noteq> None" "high r \<noteq> None"
    "low r \<noteq> None" "close_price r \<noteq> None" "volume r \<noteq> None"
  using assms by (auto simp: valid_record_def has_null_def)

lemma valid_record_date:
  assumes "valid_record r" "date r = Some s"
  shows "iso_date s" "\<not> isl (strptime_str s)"
  using assms by (auto simp: valid_record_def)

lemma dates_of_valid:
  assumes "\<forall>r\<in>set rows. valid_record r" "s \<in> set (dates_of rows)"
  shows "iso_date s" "\<not> isl (strptime_str s)"
proof -
  from assms(2) obtain r where r: "r \<in> set rows" "date r = Some s"
    by (auto simp: dates_of_def set_non_null)
  with assms(1) have "valid_record r" by blast
  from valid_record_date[OF this r(2)] show "iso_date s" "\<not> isl (strptime_str s)" .
qed

lemma dates_of_nonempty:
  assumes "rows \<noteq> []" "\<forall>r\<in>set rows. valid_record r"
  shows "dates_of rows \<noteq> []"
  unfolding dates_of_def using assms by (intro non_null_nonempty) (auto dest: valid_record_fields)

lemma map_date_valid:
  assumes "\<forall>r\<in>set rows. valid_record r"
  shows "map date rows = map Some (dates_of rows)"
  unfolding dates_of_def using assms
  by (intro non_null_all_Some[symmetric]) (auto dest: valid_record_fields)

text \<open>Facts about the least and greatest date of a valid selection.\<close>

lemma span_valid:
  assumes "rows \<noteq> []" "\<forall>r\<in>set rows. valid_record r"
  shows "0 \<le> ordinal_of (Max (set (dates_of rows))) - ordinal_of (Min (set (dates_of rows)))"
    and "ordinal_of (Max (set (dates_of rows))) - ordinal_of (Min (set (dates_of rows))) \<le> 3652058"
    and "strptime_str (Min (set (dates_of rows))) = Inr a \<Longrightarrow> ordinal_of (Min (set (dates_of rows))) = ymd2ord a"
    and "\<not> isl (strptime_str (Min (set (dates_of rows))))"
    and "\<not> isl (strptime_str (Max (set (dates_of rows))))"
proof -
  let ?D = "set (dates_of rows)"
  have ne: "?D \<noteq> {}" using dates_of_nonempty[OF assms] by simp
  have mn: "Min ?D \<in> ?D" and mx: "Max ?D \<in> ?D" using ne by simp_all
  have le: "Min ?D \<le> Max ?D" using ne by simp
  note vmn = dates_of_valid[OF assms(2) mn] and vmx = dates_of_valid[OF assms(2) mx]
  show "\<not> isl (strptime_str (Min ?D))" "\<not> isl (strptime_str (Max ?D))" by (rule vmn vmx)+
  have "ordinal_of (Min ?D) \<le> ordinal_of (Max ?D)"
    using vmn(1) vmx(1) le vmn(2) vmx(2) by (rule iso_ordinal_mono)
  then show "0 \<le> ordinal_of (Max ?D) - ordinal_of (Min ?D)" by simp
  show "ordinal_of (Max ?D) - ordinal_of (Min ?D) \<le> 3652058"
    using ordinal_of_range(1)[OF vmn(2)] ordinal_of_range(2)[OF vmx(2)] by simp
  show "strptime_str (Min ?D) = Inr a \<Longrightarrow> ordinal_of (Min ?D) = ymd2ord a"
    by (simp add: ordinal_of_def)
qed

lemma strptime_ordinal:
  assumes "\<not> isl (strptime_str s)"
  shows "\<exists>dt. strptime (Some s) = Inr dt \<and> ymd2ord dt = ordinal_of s"
  using assms by (cases "strptime_str s") (simp_all add: strptime_def ordinal_of_def)

lemma expected_days_valid:
  assumes "0 \<le> d" "d \<le> 3652058"
  shows "py_int (float_mul (float_div (of_int d) 365) 252) = d * 252 div 365"
  unfolding float_div_def using assms by (rule expected_days_exact)

lemma clock_ok_minus_days:
  assumes "clock_ok now"
  shows "minus_days now 1095 = Inr (ord2ymd (ymd2ord now - 1095))"
  using assms ymd2ord_range(2)[of now] by (simp add: clock_ok_def minus_days_def Let_def)

lemma clock_ok_ytd:
  assumes "clock_ok now"
  shows "mk_datetime (year now) 1 1 = Inr \<lparr>year = year now, month = 1, day = 1\<rparr>"
  using assms by (simp add: clock_ok_def mk_datetime_def valid_datetime_def days_in_month_def)

lemma format_float_Some: "format_float (Some x) = Inr ()"
  by (simp add: format_float_def)

lemma formats_valid:
  assumes "rows \<noteq> []" "\<forall>r\<in>set rows. valid_record r"
  shows "format_float (sql_avg (map close_price rows)) = Inr ()"
    and "format_float (sql_max (map high rows)) = Inr ()"
    and "format_float (sql_min (map low rows)) = Inr ()"
    and "format_float (sql_avg (map (map_option of_int \<circ> volume) rows)) = Inr ()"
proof -
  have c: "non_null (map close_price rows) \<noteq> []"
    using assms by (intro non_null_nonempty) (auto dest: valid_record_fields)
  have h: "non_null (map high rows) \<noteq> []"
    using assms by (intro non_null_nonempty) (auto dest: valid_record_fields)
  have l: "non_null (map low rows) \<noteq> []"
    using assms by (intro non_null_nonempty) (auto dest: valid_record_fields)
  have v: "non_null (map (map_option of_int \<circ> volume) rows) \<noteq> []"
    using assms by (intro non_null_nonempty) (auto dest: valid_record_fields)
  from sql_avg_Some[OF c] show "format_float (sql_avg (map close_price rows)) = Inr ()"
    by (auto simp: format_float_Some)
  show "format_float (sql_max (map high rows)) = Inr ()"
    by (simp add: sql_max_Some[OF h] format_float_Some)
  show "format_float (sql_min (map low rows)) = Inr ()"
    by (simp add: sql_min_Some[OF l] format_float_Some)
  from sql_avg_Some[OF v] show "format_float (sql_avg (map (map_option of_int \<circ> volume) rows)) = Inr ()"
    by (auto simp: format_float_Some)
qed

lemma get_ticker_statistics_valid:
  assumes ne: "where_ticker db t \<noteq> []"
    and valid: "\<forall>r\<in>set (where_ticker db t). valid_record r"
    and clock: "clock_ok now"
  shows "get_ticker_statistics db t now =
     Inr \<lparr>stats_ticker = t,
          first_date = Min (set (dates_of (where_ticker db t))),
          last_date = Max (set (dates_of (where_ticker db t))),
          date_range_days = ordinal_of (Max (set (dates_of (where_ticker db t))))
             - ordinal_of (Min (set (dates_of (where_ticker db t)))),
          years = float_div (of_int (ordinal_of (Max (set (dates_of (where_ticker db t))))
             - ordinal_of (Min (set (dates_of (where_ticker db t)))))) 365,
          expected_trading_days = (ordinal_of (Max (set (dates_of (where_ticker db t))))
             - ordinal_of (Min (set (dates_of (where_ticker db t))))) * 252 div 365,
          record_count = sql_count (where_ticker db t),
          completeness =
            (if 0 < (ordinal_of (Max (set (dates_of (where_ticker db t))))
                 - ordinal_of (Min (set (dates_of (where_ticker db t))))) * 252 div 365
             then float_div (of_int (sql_count (where_ticker db t)))
                    (of_int ((ordinal_of (Max (set (dates_of (where_ticker db t))))
                       - ordinal_of (Min (set (dates_of (where_ticker db t))))) * 252 div 365))
             else 0),
          recent_count = sql_count (where_ticker_since db t
             (Some (strftime (ord2ymd (ymd2ord now - 1095))))),
          ytd_count = sql_count (where_ticker_since db t
             (Some (strftime \<lparr>year = year now, month = 1, day = 1\<rparr>)))\<rparr>"
proof -
  define rows where "rows = where_ticker db t"
  define lo where "lo = Min (set (dates_of rows))"
  define hi where "hi = Max (set (dates_of rows))"
  define days where "days = ordinal_of hi - ordinal_of lo"
  have ne': "rows \<noteq> []" and valid': "\<forall>r\<in>set rows. valid_record r"
    using ne valid by (simp_all add: rows_def)
  note sp = span_valid[OF ne' valid', folded lo_def hi_def days_def]
  have nn: "non_null (map date rows) \<noteq> []"
    using dates_of_nonempty[OF ne' valid'] by (simp add: dates_of_def)
  have mn: "sql_min (map date rows) = Some lo"
    using sql_min_Some[OF nn] by (simp add: lo_def dates_of_def)
  have mx: "sql_max (map date rows) = Some hi"
    using sql_max_Some[OF nn] by (simp add: hi_def dates_of_def)
  from strptime_ordinal[OF sp(4)] obtain a where a: "strptime (Some lo) = Inr a" "ymd2ord a = ordinal_of lo"
    by blast
  from strptime_ordinal[OF sp(5)] obtain b where b: "strptime (Some hi) = Inr b" "ymd2ord b = ordinal_of hi"
    by blast
  have ex: "py_int (float_mul (float_div (of_int days) 365) 252) = days * 252 div 365"
    using sp(1,2) by (rule expected_days_valid)
  note ff = formats_valid[OF ne' valid']
  have "get_ticker_statistics db t now =
     Inr \<lparr>stats_ticker = t, first_date = lo, last_date = hi, date_range_days = days,
          years = float_div (of_int days) 365,
          expected_trading_days = days * 252 div 365,
          record_count = sql_count rows,
          completeness =
            (if 0 < days * 252 div 365
             then float_div (of_int (sql_count rows)) (of_int (days * 252 div 365))
             else 0),
          recent_count = sql_count (where_ticker_since db t
             (Some (strftime (ord2ymd (ymd2ord now - 1095))))),
          ytd_count = sql_count (where_ticker_since db t
             (Some (strftime \<lparr>year = year now, month = 1, day = 1\<rparr>)))\<rparr>"
    unfolding get_ticker_statistics_def Let_def rows_def[symmetric]
    by (simp add: mn mx a b days_def[symmetric] ex truediv_def
        clock_ok_minus_days[OF clock] clock_ok_ytd[OF clock] ff)
  then show ?thesis by (simp only: rows_def lo_def hi_def days_def)
qed

lemma min_Some: "min (Some x) (Some y) = Some (min x (y::'a::linorder))"
  by (simp add: min_def)

lemma max_Some: "max (Some x) (Some y) = Some (max x (y::'a::linorder))"
  by (simp add: max_def)

lemma fold_min_Some: "fold min (map Some xs) (Some x) = Some (fold min xs (x::'a::linorder))"
  by (induction xs arbitrary: x) (simp_all add: min_Some)

lemma fold_max_Some: "fold max (map Some xs) (Some x) = Some (fold max xs (x::'a::linorder))"
  by (induction xs arbitrary: x) (simp_all add: max_Some)

lemma order_by_date_valid:
  assumes "rows \<noteq> []" "\<forall>r\<in>set rows. valid_record r"
  shows "order_by_date_asc_limit_1 rows = Some (Some (Min (set (dates_of rows))))"
    and "order_by_date_desc_limit_1 rows = Some (Some (Max (set (dates_of rows))))"
proof -
  from dates_of_nonempty[OF assms] obtain x xs where d: "dates_of rows = x # xs"
    by (cases "dates_of rows") auto
  have m: "map date rows = Some x # map Some xs"
    using map_date_valid[OF assms(2)] by (simp add: d)
  show "order_by_date_asc_limit_1 rows = Some (Some (Min (set (dates_of rows))))"
    unfolding order_by_date_asc_limit_1_def m d by (simp only: list.case fold_min_Some, simp only: fold_min_Min)
  show "order_by_date_desc_limit_1 rows = Some (Some (Max (set (dates_of rows))))"
    unfolding order_by_date_desc_limit_1_def m d by (simp only: list.case fold_max_Some, simp only: fold_max_Max)
qed

lemma analyze_ticker_valid:
  assumes ne: "where_ticker db t \<noteq> []"
    and valid: "\<forall>r\<in>set (where_ticker db t). valid_record r"
    and clock: "clock_ok now"
  shows "analyze_ticker db t now =
     Inr \<lparr>Ticker = t,
          First_Date = Some (Min (set (dates_of (where_ticker db t)))),
          Last_Date = Some (Max (set (dates_of (where_ticker db t)))),
          Total_Records = sql_count (where_ticker db t),
          Date_Range_days = ordinal_of (Max (set (dates_of (where_ticker db t))))
             - ordinal_of (Min (set (dates_of (where_ticker db t)))),
          expected_records = (ordinal_of (Max (set (dates_of (where_ticker db t))))
             - ordinal_of (Min (set (dates_of (where_ticker db t))))) * 252 div 365,
          Completeness =
            (if 0 < (ordinal_of (Max (set (dates_of (where_ticker db t))))
                 - ordinal_of (Min (set (dates_of (where_ticker db t))))) * 252 div 365
             then float_div (of_int (sql_count (where_ticker db t)))
                    (of_int ((ordinal_of (Max (set (dates_of (where_ticker db t))))
                       - ordinal_of (Min (set (dates_of (where_ticker db t))))) * 252 div 365))
             else 0),
          Recent_Records_3yr = sql_count (where_ticker_since db t
             (Some (strftime (ord2ymd (ymd2ord now - 1095)))))\<rparr>"
proof -
  define rows where "rows = where_ticker db t"
  define lo where "lo = Min (set (dates_of rows))"
  define hi where "hi = Max (set (dates_of rows))"
  define days where "days = ordinal_of hi - ordinal_of lo"
  have ne': "rows \<noteq> []" and valid': "\<forall>r\<in>set rows. valid_record r"
    using ne valid by (simp_all add: rows_def)
  note sp = span_valid[OF ne' valid', folded lo_def hi_def days_def]
  note ob = order_by_date_valid[OF ne' valid', folded lo_def hi_def]
  from strptime_ordinal[OF sp(4)] obtain a where a: "strptime (Some lo) = Inr a" "ymd2ord a = ordinal_of lo"
    by blast
  from strptime_ordinal[OF sp(5)] obtain b where b: "strptime (Some hi) = Inr b" "ymd2ord b = ordinal_of hi"
    by blast
  have ex: "py_int (float_mul (float_div (of_int days) 365) 252) = days * 252 div 365"
    using sp(1,2) by (rule expected_days_valid)
  have "analyze_ticker db t now =
     Inr \<lparr>Ticker = t, First_Date = Some lo, Last_Date = Some hi,
          Total_Records = sql_count rows, Date_Range_days = days,
          expected_records = days * 252 div 365,
          Completeness =
            (if 0 < days * 252 div 365
             then float_div (of_int (sql_count rows)) (of_int (days * 252 div 365))
             else 0),
          Recent_Records_3yr = sql_count (where_ticker_since db t
             (Some (strftime (ord2ymd (ymd2ord now - 1095)))))\<rparr>"
    unfolding analyze_ticker_def Let_def rows_def[symmetric]
    by (simp add: ob fetchone_date_def a b days_def[symmetric] ex truediv_def
        clock_ok_minus_days[OF clock])
  then show ?thesis by (simp only: rows_def lo_def hi_def days_def)
qed

lemma strptime_errors:
  assumes "strptime v = Inl e"
  shows "e = TypeError \<or> e = ValueError"
proof (cases v)
  case None
  with assms show ?thesis by (simp add: strptime_def)
next
  case (Some s)
  with assms have "strptime_str s = Inl e" by (simp add: strptime_def)
  then have "e = ValueError"
    by (erule_tac strptime_str.elims)
       (auto simp: mk_datetime_def Let_def split: if_splits option.splits)
  then show ?thesis ..
qed

lemma minus_days_errors: "minus_days dt n = Inl e \<Longrightarrow> e = OverflowError"
  by (simp add: minus_days_def Let_def split: if_splits)

lemma mk_datetime_errors: "mk_datetime y m d = Inl e \<Longrightarrow> e = ValueError"
  by (simp add: mk_datetime_def Let_def split: if_splits)

lemma format_float_errors: "format_float v = Inl e \<Longrightarrow> e = TypeError"
  by (simp add: format_float_def split: option.splits)

lemma guarded_division:
  "(if 0 < (n::int) then truediv a (of_int n) else Inr 0)
     = Inr (if 0 < n then float_div a (of_int n) else 0)"
  by (simp add: truediv_def)

lemma get_ticker_statistics_errors:
  assumes "get_ticker_statistics db t now = Inl e"
  shows "e = TypeError \<or> e = ValueError \<or> e = OverflowError"
  using assms unfolding get_ticker_statistics_def Let_def guarded_division
  by (auto split: sum.splits
      dest: strptime_errors minus_days_errors mk_datetime_errors format_float_errors)

lemma analyze_ticker_errors:
  assumes "analyze_ticker db t now = Inl e"
  shows "e = TypeError \<or> e = ValueError \<or> e = OverflowError"
  using assms unfolding analyze_ticker_def Let_def guarded_division fetchone_date_def
  by (auto split: sum.splits option.splits
      dest: strptime_errors minus_days_errors)

lemma get_ticker_statistics_Inr:
  assumes "get_ticker_statistics db t now = Inr s"
  shows "record_count s = sql_count (where_ticker db t)"
    and "expected_trading_days s = py_int (float_mul (float_div (of_int (date_range_days s)) 365) 252)"
    and "completeness s =
      (if 0 < expected_trading_days s
       then float_div (of_int (record_count s)) (of_int (expected_trading_days s)) else 0)"
    and "\<exists>d. recent_count s = sql_count (where_ticker_since db t d)"
    and "\<exists>d. ytd_count s = sql_count (where_ticker_since db t d)"
  using assms unfolding get_ticker_statistics_def Let_def guarded_division
  by (auto split: sum.splits)

lemma analyze_ticker_Inr:
  assumes "analyze_ticker db t now = Inr a"
  shows "Total_Records a = sql_count (where_ticker db t)"
    and "expected_records a = py_int (float_mul (float_div (of_int (Date_Range_days a)) 365) 252)"
    and "Completeness a =
      (if 0 < expected_records a
       then float_div (of_int (Total_Records a)) (of_int (expected_records a)) else 0)"
    and "\<exists>d. Recent_Records_3yr a = sql_count (where_ticker_since db t d)"
  using assms unfolding analyze_ticker_def Let_def guarded_division
  by (auto split: sum.splits)

lemma where_ticker_since_le: "sql_count (where_ticker_since db t d) \<le> sql_count (where_ticker db t)"
proof -
  have "where_ticker_since db t d = filter (\<lambda>r. sql_ge (date r) d) (where_ticker db t)"
    by (simp add: where_ticker_since_def where_ticker_def conj_commute)
  then show ?thesis by (simp add: sql_count_def)
qed

lemma round_double_0: "round_double 0 = 0"
  by (simp add: round_double_def)

lemma expected_days_0: "py_int (float_mul (float_div 0 365) 252) = 0"
  by (simp add: py_int_def float_mul_def float_div_def round_double_0)

section \<open>The null check\<close>

lemma sql_eq_Some: "sql_eq v (Some t) \<longleftrightarrow> v = Some t"
  by (cases v) (auto simp: sql_eq_def)

lemma null_records_empty_iff: "null_records db = [] \<longleftrightarrow> (\<forall>r\<in>set db. \<not> has_null r)"
proof -
  have "null_records db = [] \<longleftrightarrow> set (sort (remdups (map group_key (filter has_null db)))) = {}"
    unfolding null_records_def Let_def by (simp only: map_is_Nil_conv set_empty)
  also have "\<dots> \<longleftrightarrow> filter has_null db = []" by (auto simp: filter_empty_conv)
  also have "\<dots> \<longleftrightarrow> (\<forall>r\<in>set db. \<not> has_null r)" by (simp add: filter_empty_conv)
  finally show ?thesis .
qed

lemma null_records_keys:
  "map (\<lambda>(t, d, c). (t, d)) (null_records db) = sort (remdups (map group_key (filter has_null db)))"
  unfolding null_records_def Let_def by (simp add: comp_def case_prod_beta)

lemma null_records_distinct: "distinct (map (\<lambda>(t, d, c). (t, d)) (null_records db))"
  by (simp add: null_records_keys)

lemma null_records_filter:
  "filter (\<lambda>r. group_key r = (t, d)) (filter has_null db)
     = filter (\<lambda>r. has_null r \<and> ticker r = t \<and> date r = d) db"
  by (simp add: group_key_def conj_commute conj_left_commute cong: conj_cong)

lemma null_records_mem:
  "(t, d, c) \<in> set (null_records db) \<longleftrightarrow>
     (\<exists>r\<in>set db. has_null r \<and> ticker r = t \<and> date r = d) \<and>
     c = sql_count (filter (\<lambda>r. has_null r \<and> ticker r = t \<and> date r = d) db)"
proof -
  define bad where "bad = filter has_null db"
  define cnt where "cnt k = sql_count (filter (\<lambda>r. group_key r = k) bad)" for k
  have s: "set (null_records db) = (\<lambda>k. (fst k, snd k, cnt k)) ` (group_key ` set bad)"
    unfolding null_records_def Let_def bad_def cnt_def by simp
  have "(t, d, c) \<in> set (null_records db) \<longleftrightarrow> (t, d) \<in> group_key ` set bad \<and> c = cnt (t, d)"
  proof
    assume "(t, d, c) \<in> set (null_records db)"
    then obtain k where k: "k \<in> group_key ` set bad" "(t, d, c) = (fst k, snd k, cnt k)"
      unfolding s by blast
    from k(2) have "k = (t, d)" "c = cnt k" by (simp_all add: prod_eq_iff)
    with k(1) show "(t, d) \<in> group_key ` set bad \<and> c = cnt (t, d)" by simp
  next
    assume "(t, d) \<in> group_key ` set bad \<and> c = cnt (t, d)"
    then have "(t, d) \<in> group_key ` set bad" "(t, d, c) = (fst (t, d), snd (t, d), cnt (t, d))"
      by simp_all
    then show "(t, d, c) \<in> set (null_records db)" unfolding s by (rule rev_image_eqI)
  qed
  also have "(t, d) \<in> group_key ` set bad \<longleftrightarrow> (\<exists>r\<in>set db. has_null r \<and> ticker r = t \<and> date r = d)"
    unfolding bad_def by (auto simp: group_key_def image_iff)
  also have "cnt (t, d) = sql_count (filter (\<lambda>r. has_null r \<and> ticker r = t \<and> date r = d) db)"
    unfolding cnt_def bad_def by (simp only: null_records_filter)
  finally show ?thesis .
qed

lemma count_pos:
  assumes "r \<in> set db" "P r"
  shows "1 \<le> sql_count (filter P db)"
proof -
  have "r \<in> set (filter P db)" using assms by simp
  then show ?thesis by (cases "filter P db") (simp_all add: sql_count_def)
qed

text \<open>
  C3. The query behind \<^verbatim>\<open>check_for_null_values\<close> returns no row exactly when no row of the
  table has a \<^verbatim>\<open>NULL\<close> in one of the seven columns. Otherwise its rows have pairwise
  different (ticker, date) pairs, every row with a \<^verbatim>\<open>NULL\<close> is reported under its pair, and
  the count of a reported pair is the number of rows with a \<^verbatim>\<open>NULL\<close> in that group, which
  is at least one.
\<close>

theorem null_records_grouped:
  "(null_records db = [] \<longleftrightarrow> (\<forall>r\<in>set db. \<not> has_null r)) \<and>
   distinct (map (\<lambda>(t, d, c). (t, d)) (null_records db)) \<and>
   (\<forall>r\<in>set db. has_null r \<longrightarrow>
      (ticker r, date r,
       sql_count (filter (\<lambda>r'. has_null r' \<and> ticker r' = ticker r \<and> date r' = date r) db))
        \<in> set (null_records db)) \<and>
   (\<forall>(t, d, c)\<in>set (null_records db).
      1 \<le> c \<and> c = sql_count (filter (\<lambda>r. has_null r \<and> ticker r = t \<and> date r = d) db))"
proof (intro conjI)
  show "null_records db = [] \<longleftrightarrow> (\<forall>r\<in>set db. \<not> has_null r)"
    by (rule null_records_empty_iff)
  show "distinct (map (\<lambda>(t, d, c). (t, d)) (null_records db))"
    by (rule null_records_distinct)
  show "\<forall>r\<in>set db. has_null r \<longrightarrow>
      (ticker r, date r,
       sql_count (filter (\<lambda>r'. has_null r' \<and> ticker r' = ticker r \<and> date r' = date r) db))
        \<in> set (null_records db)"
    by (auto simp: null_records_mem)
  show "\<forall>(t, d, c)\<in>set (null_records db).
      1 \<le> c \<and> c = sql_count (filter (\<lambda>r. has_null r \<and> ticker r = t \<and> date r = d) db)"
  proof (clarify, rule conjI)
    fix t d c
    assume m: "(t, d, c) \<in> set (null_records db)"
    then obtain r where r: "r \<in> set db" "has_null r \<and> ticker r = t \<and> date r = d"
      and c: "c = sql_count (filter (\<lambda>r. has_null r \<and> ticker r = t \<and> date r = d) db)"
      unfolding null_records_mem by blast
    show "c = sql_count (filter (\<lambda>r. has_null r \<and> ticker r = t \<and> date r = d) db)" by (rule c)
    show "1 \<le> c" unfolding c using r by (rule count_pos)
  qed
qed

theorem null_records_grouped_witness:
  "has_null \<lparr>ticker = Some ''ABC'', date = Some ''2022-05-01'', open_price = Some 10,
      high = Some 12, low = Some 9, close_price = None, volume = Some 100\<rparr> \<and>
   null_records [\<lparr>ticker = Some ''ABC'', date = Some ''2022-05-01'', open_price = Some 10,
      high = Some 12, low = Some 9, close_price = None, volume = Some 100\<rparr>]
     = [(Some ''ABC'', Some ''2022-05-01'', 1)]"
proof -
  let ?r = "\<lparr>ticker = Some ''ABC'', date = Some ''2022-05-01'', open_price = Some 10,
      high = Some 12, low = Some 9, close_price = None, volume = Some 100\<rparr>"
  have h: "has_null ?r" by (simp add: has_null_def)
  have n: "null_records [?r] \<noteq> []"
    using null_records_grouped[of "[?r]"] h by simp
  have m: "(Some ''ABC'', Some ''2022-05-01'', 1) \<in> set (null_records [?r])"
    using null_records_grouped[of "[?r]"] h by (simp add: sql_count_def)
  have "length (null_records [?r]) = 1"
    by (simp add: null_records_def Let_def h)
  with m have "null_records [?r] = [(Some ''ABC'', Some ''2022-05-01'', 1)]"
    by (cases "null_records [?r]") auto
  with h show ?thesis by simp
qed

text \<open>
  C9. \<^verbatim>\<open>check_for_null_values\<close> returns \<^verbatim>\<open>False\<close> when the store raises and also when some
  row has a \<^verbatim>\<open>NULL\<close>; it returns \<^verbatim>\<open>True\<close> exactly when the store answers and no row has
  a \<^verbatim>\<open>NULL\<close>. The two failures give the same result.
\<close>

theorem check_for_null_values_conflates:
  "check_for_null_values (Inl e) = False \<and>
   ((\<exists>r\<in>set db. has_null r) \<longrightarrow> check_for_null_values (Inr db) = False) \<and>
   (check_for_null_values st \<longleftrightarrow> (\<exists>rows. st = Inr rows \<and> (\<forall>r\<in>set rows. \<not> has_null r)))"
  by (cases st) (auto simp: check_for_null_values_def null_records_empty_iff)

theorem check_for_null_values_conflates_witness:
  "check_for_null_values (Inl DatabaseError) = False \<and>
   check_for_null_values (Inr [\<lparr>ticker = Some ''ABC'', date = Some ''2022-05-01'',
      open_price = Some 10, high = Some 12, low = Some 9, close_price = None,
      volume = Some 100\<rparr>]) = False \<and>
   check_for_null_values (Inr [\<lparr>ticker = Some ''ABC'', date = Some ''2022-05-01'',
      open_price = Some 10, high = Some 12, low = Some 9, close_price = Some 11,
      volume = Some 100\<rparr>]) = True"
proof -
  let ?bad = "\<lparr>ticker = Some ''ABC'', date = Some ''2022-05-01'',
      open_price = Some 10, high = Some 12, low = Some 9, close_price = None,
      volume = Some 100\<rparr>"
  let ?good = "\<lparr>ticker = Some ''ABC'', date = Some ''2022-05-01'',
      open_price = Some 10, high = Some 12, low = Some 9, close_price = Some 11,
      volume = Some 100\<rparr>"
  have 1: "check_for_null_values (Inl DatabaseError) = False"
    using check_for_null_values_conflates[of DatabaseError "[]" "Inl DatabaseError"] by simp
  have 2: "check_for_null_values (Inr [?bad]) = False"
    using check_for_null_values_conflates[of DatabaseError "[?bad]" "Inr [?bad]"]
    by (simp add: has_null_def)
  have 3: "check_for_null_values (Inr [?good]) = True"
    using check_for_null_values_conflates[of DatabaseError "[?good]" "Inr [?good]"]
    by (simp add: has_null_def)
  from 1 2 3 show ?thesis by simp
qed

section \<open>Deleting a ticker\<close>

lemma delete_ticker_data_Inr:
  "delete_ticker_data (Inr db) t =
     (Inr (filter (\<lambda>r. ticker r \<noteq> Some t) db), int (length (filter (\<lambda>r. ticker r = Some t) db)))"
  by (simp add: delete_ticker_data_def Let_def sql_count_def where_ticker_def sql_eq_Some)

text \<open>
  C4. On a store that answers, \<^verbatim>\<open>delete_ticker_data\<close> leaves exactly the rows of the other
  tickers and returns the count before minus the count after, which is the number of rows
  removed; a ticker without rows leaves the store as it is and returns 0. A second call
  right after the first changes nothing and returns 0, whatever the store.
\<close>

theorem delete_ticker_data_idempotent:
  "(\<forall>db. delete_ticker_data (Inr db) t =
      (Inr (filter (\<lambda>r. ticker r \<noteq> Some t) db),
       sql_count (where_ticker db (Some t))
         - sql_count (where_ticker (filter (\<lambda>r. ticker r \<noteq> Some t) db) (Some t))) \<and>
      snd (delete_ticker_data (Inr db) t) = sql_count db - sql_count (filter (\<lambda>r. ticker r \<noteq> Some t) db) \<and>
      snd (delete_ticker_data (Inr db) t) = sql_count (filter (\<lambda>r. ticker r = Some t) db) \<and>
      ((\<forall>r\<in>set db. ticker r \<noteq> Some t) \<longrightarrow> delete_ticker_data (Inr db) t = (Inr db, 0))) \<and>
   delete_ticker_data (fst (delete_ticker_data st t)) t = (fst (delete_ticker_data st t), 0)"
proof (intro conjI allI)
  fix db :: "ohlcv list"
  have len: "length db = length (filter (\<lambda>r. ticker r = Some t) db) + length (filter (\<lambda>r. ticker r \<noteq> Some t) db)"
    by (rule sum_length_filter_compl[symmetric])
  show "delete_ticker_data (Inr db) t =
      (Inr (filter (\<lambda>r. ticker r \<noteq> Some t) db),
       sql_count (where_ticker db (Some t))
         - sql_count (where_ticker (filter (\<lambda>r. ticker r \<noteq> Some t) db) (Some t)))"
    by (simp add: delete_ticker_data_def Let_def sql_eq_Some)
  show "snd (delete_ticker_data (Inr db) t) = sql_count db - sql_count (filter (\<lambda>r. ticker r \<noteq> Some t) db)"
    using len by (simp add: delete_ticker_data_Inr sql_count_def)
  show "snd (delete_ticker_data (Inr db) t) = sql_count (filter (\<lambda>r. ticker r = Some t) db)"
    by (simp add: delete_ticker_data_Inr sql_count_def)
  show "(\<forall>r\<in>set db. ticker r \<noteq> Some t) \<longrightarrow> delete_ticker_data (Inr db) t = (Inr db, 0)"
    by (simp add: delete_ticker_data_Inr filter_id_conv filter_empty_conv)
next
  show "delete_ticker_data (fst (delete_ticker_data st t)) t = (fst (delete_ticker_data st t), 0)"
  proof (cases st)
    case (Inl e)
    then show ?thesis by (simp add: delete_ticker_data_def)
  next
    case (Inr db)
    then show ?thesis by (simp add: delete_ticker_data_Inr)
  qed
qed

theorem delete_ticker_data_idempotent_witness:
  "delete_ticker_data (Inr [\<lparr>ticker = Some ''AAPL'', date = Some ''2022-05-02'',
      open_price = Some 10, high = Some 12, low = Some 9, close_price = Some 11,
      volume = Some 100\<rparr>]) ''MSFT''
   = (Inr [\<lparr>ticker = Some ''AAPL'', date = Some ''2022-05-02'',
      open_price = Some 10, high = Some 12, low = Some 9, close_price = Some 11,
      volume = Some 100\<rparr>], 0)"
  using delete_ticker_data_idempotent[of "''MSFT''" "Inl DatabaseError"]
  by simp

section \<open>Fetch failures\<close>

lemma py_in_object: "py_in k (JObject kvs) = Inr (k \<in> fst ` set kvs)"
  by simp

lemma getitem_present:
  "k \<in> fst ` set kvs \<Longrightarrow> \<exists>v. py_getitem (JObject kvs) k = Inr v"
  by (cases "map_of kvs k") (auto simp: map_of_eq_None_iff)

text \<open>
  C8. For every symbol, \<^verbatim>\<open>get_daily_time_series\<close> returns \<^verbatim>\<open>None\<close> when the request gets no
  response, when the response has a 4xx or 5xx status, when its body is not JSON, and when
  its body is an object with the key \<^verbatim>\<open>Error Message\<close>. The function has no other outcome
  than a value: no exception leaves it.
\<close>

theorem fetch_failure_absent:
  assumes "net (daily_request self symbol outputsize) = NoResponse
     \<or> (\<exists>code body. net (daily_request self symbol outputsize) = Response code body
          \<and> (400 \<le> code \<and> code < 600
               \<or> body = None
               \<or> (\<exists>kvs. body = Some (JObject kvs) \<and> ''Error Message'' \<in> fst ` set kvs)))"
  shows "get_daily_time_series net self symbol outputsize = None"
proof -
  let ?req = "daily_request self symbol outputsize"
  show ?thesis
  proof (cases "net ?req")
    case NoResponse
    then show ?thesis
      by (simp add: get_daily_time_series_def try_daily_time_series_def requests_get_def)
  next
    case (Response code body)
    show ?thesis
    proof (cases "400 \<le> code \<and> code < 600")
      case True
      then show ?thesis using Response
        by (simp add: get_daily_time_series_def try_daily_time_series_def requests_get_def
            raise_for_status_def)
    next
      case ok: False
      show ?thesis
      proof (cases body)
        case None
        then show ?thesis using Response ok
          by (simp add: get_daily_time_series_def try_daily_time_series_def requests_get_def
              raise_for_status_def response_json_def)
      next
        case (Some data)
        with assms Response ok obtain kvs where
          kvs: "data = JObject kvs" "''Error Message'' \<in> fst ` set kvs"
          by auto
        from getitem_present[OF kvs(2)] obtain v where
          "py_getitem (JObject kvs) ''Error Message'' = Inr v" ..
        then show ?thesis using Response ok Some kvs
          by (simp add: get_daily_time_series_def try_daily_time_series_def requests_get_def
              raise_for_status_def response_json_def)
      qed
    qed
  qed
qed

theorem fetch_failure_absent_witness:
  "get_daily_time_series
     (\<lambda>r. Response 200 (Some (JObject [(''Error Message'', JString ''Invalid API call.'')])))
     \<lparr>api_key = ''demo'', base_url = ''https://www.alphavantage.co/query'',
      output_format = ''json'', rate_limit = 5\<rparr> ''AAPL'' ''compact'' = None \<and>
   get_daily_time_series (\<lambda>r. Response 503 (Some (JObject [])))
     \<lparr>api_key = ''demo'', base_url = ''https://www.alphavantage.co/query'',
      output_format = ''json'', rate_limit = 5\<rparr> ''AAPL'' ''compact'' = None \<and>
   get_daily_time_series (\<lambda>r. Response 200 None)
     \<lparr>api_key = ''demo'', base_url = ''https://www.alphavantage.co/query'',
      output_format = ''json'', rate_limit = 5\<rparr> ''AAPL'' ''compact'' = None \<and>
   get_daily_time_series (\<lambda>r. NoResponse)
     \<lparr>api_key = ''demo'', base_url = ''https://www.alphavantage.co/query'',
      output_format = ''json'', rate_limit = 5\<rparr> ''AAPL'' ''compact'' = None"
proof -
  let ?self = "\<lparr>api_key = ''demo'', base_url = ''https://www.alphavantage.co/query'',
      output_format = ''json'', rate_limit = 5\<rparr>"
  have 1: "get_daily_time_series
     (\<lambda>r. Response 200 (Some (JObject [(''Error Message'', JString ''Invalid API call.'')])))
     ?self ''AAPL'' ''compact'' = None"
    by (rule fetch_failure_absent) simp
  have 2: "get_daily_time_series (\<lambda>r. Response 503 (Some (JObject []))) ?self ''AAPL'' ''compact'' = None"
    by (rule fetch_failure_absent) simp
  have 3: "get_daily_time_series (\<lambda>r. Response 200 None) ?self ''AAPL'' ''compact'' = None"
    by (rule fetch_failure_absent) simp
  have 4: "get_daily_time_series (\<lambda>r. NoResponse) ?self ''AAPL'' ''compact'' = None"
    by (rule fetch_failure_absent) simp
  from 1 2 3 4 show ?thesis by simp
qed

end
